theory Spec2Isabelle
  imports Main "HOL-Library.AList"
begin

section \<open>The room server of class-interactor (src/server/server.ts)\<close>

text \<open>
  The server is one socket.io application. A client connects to a namespace named
  \<^verbatim>\<open>/rooms/<room>\<close> (viewer) or \<^verbatim>\<open>/rooms/<room>/<role>\<close> (administrator); the
  authorizer accepts or rejects the namespace, the connection handler replays pending
  state and registers the event handlers of the role, and every handler reads or
  writes the relational store through knex and emits events to namespaces.

  A handler is a function from the store to the new store and the list of effects
  it performs, in program order. Two things reach across handlers and are part of
  the model: the namespaces socket.io holds, which \<^verbatim>\<open>io.of(name)\<close> in a handler adds
  to, and the transaction of a poll response, whose select and update other requests
  can come between. What socket.io, knex and the JavaScript language do is written
  into the definitions where the handlers depend on it, and named there.
\<close>

subsection \<open>JavaScript values in a tally\<close>

text \<open>
  A tally is the JSON object of the column \<^verbatim>\<open>values\<close> of a poll: own string keys, in
  insertion order. The values the handlers can put there are numbers with an integer
  value, \<^verbatim>\<open>null\<close>, and strings, whose text the model does not keep; in memory a count
  may also be \<^verbatim>\<open>NaN\<close>. \<open>JNum n\<close> is the double whose value is the integer \<open>n\<close>.
\<close>

datatype jsval = JNum int | JNaN | JNull | JStr

type_synonym tally = "(string \<times> jsval) list"

text \<open>
  Truthiness of a value that is \<^verbatim>\<open>undefined\<close> (or \<^verbatim>\<open>null\<close>) or a string: only the
  empty string and the absent value are falsy.
\<close>

definition js_truthy :: "string option \<Rightarrow> bool" where
  "js_truthy v = (case v of None \<Rightarrow> False | Some s \<Rightarrow> s \<noteq> [])"

text \<open>
  The source adds \<open>1\<close> and \<open>-1\<close> only. A JavaScript number is an IEEE double: the sum
  of an integer-valued double \<open>n\<close> and \<open>1\<close> or \<open>-1\<close> is exact while it stays within
  \<open>2^53\<close> in magnitude; above, up to \<open>2^54\<close>, the doubles are 2 apart, the sum lies
  half way between two of them and is rounded to the one with the even significand,
  which is the multiple of 4; from \<open>2^54\<close> on the sum is rounded back to \<open>n\<close>.
\<close>

datatype addend = PlusOne | MinusOne

fun addend_val :: "addend \<Rightarrow> int" where
  "addend_val PlusOne = 1"
| "addend_val MinusOne = - 1"

definition double_add :: "int \<Rightarrow> addend \<Rightarrow> int" where
  "double_add n a =
     (if \<bar>n + addend_val a\<bar> \<le> 9007199254740992 then n + addend_val a
      else if \<bar>n\<bar> < 18014398509481984 then (if n mod 4 = 0 then n else n + 2 * addend_val a)
      else n)"

text \<open>
  \<^verbatim>\<open>x + d\<close> for a value \<open>x\<close> of a tally: \<^verbatim>\<open>NaN\<close> stays, \<^verbatim>\<open>null\<close> counts as zero, a
  string is concatenated with the text of \<open>d\<close>.
\<close>

fun js_plus :: "jsval \<Rightarrow> addend \<Rightarrow> jsval" where
  "js_plus (JNum n) a = JNum (double_add n a)"
| "js_plus JNaN a = JNaN"
| "js_plus JNull a = JNum (addend_val a)"
| "js_plus JStr a = JStr"

text \<open>
  The members a plain object inherits from \<^verbatim>\<open>Object.prototype\<close>: the methods, which
  are functions, and the accessor \<^verbatim>\<open>__proto__\<close>.
\<close>

definition object_prototype_methods :: "string list" where
  "object_prototype_methods =
     [''constructor'', ''__defineGetter__'', ''__defineSetter__'', ''hasOwnProperty'',
      ''__lookupGetter__'', ''__lookupSetter__'', ''isPrototypeOf'', ''propertyIsEnumerable'',
      ''toString'', ''valueOf'', ''toLocaleString'']"

text \<open>
  \<^verbatim>\<open>obj[k] += d\<close>. An own key is read, added to and written in its place. A key the
  object does not have is read through the prototype: an inherited method is a
  function, the sum is a string and becomes a new own entry; \<^verbatim>\<open>__proto__\<close> reads the
  prototype, the sum is a string, and its setter ignores a value that is no object;
  any other key reads \<^verbatim>\<open>undefined\<close>, the sum is \<^verbatim>\<open>NaN\<close> and becomes a new own entry.
  The model puts a new entry last; JavaScript lists a key that is an array index
  before the others.
\<close>

definition add_assign :: "tally \<Rightarrow> string \<Rightarrow> addend \<Rightarrow> tally" where
  "add_assign t k a =
     (case map_of t k of
        Some v \<Rightarrow> AList.update k (js_plus v a) t
      | None \<Rightarrow>
          if k = ''__proto__'' then t
          else if k \<in> set object_prototype_methods then t @ [(k, JStr)]
          else t @ [(k, JNaN)])"

text \<open>
  What the store keeps of a tally: the driver binds the object with
  \<^verbatim>\<open>JSON.stringify\<close>, which writes \<^verbatim>\<open>NaN\<close> as \<^verbatim>\<open>null\<close>.
\<close>

fun to_json :: "jsval \<Rightarrow> jsval" where
  "to_json JNaN = JNull"
| "to_json v = v"

definition json_tally :: "tally \<Rightarrow> tally" where
  "json_tally t = map (\<lambda>(k, v). (k, to_json v)) t"

text \<open>The five choice labels of \<^verbatim>\<open>{ A: 0, B: 0, C: 0, D: 0, E: 0 }\<close>.\<close>

definition choice_labels :: "string list" where
  "choice_labels = [''A'', ''B'', ''C'', ''D'', ''E'']"

definition zero_tally :: tally where
  "zero_tally = map (\<lambda>l. (l, JNum 0)) choice_labels"

subsection \<open>The store\<close>

text \<open>
  Modelled from the spec: the table definitions (the migrations) are not among the
  sources. The columns are the ones the handlers name (\<^verbatim>\<open>id\<close>, \<^verbatim>\<open>visibleId\<close>,
  \<^verbatim>\<open>roomId\<close>, \<^verbatim>\<open>values\<close>, \<^verbatim>\<open>created_at\<close>, \<^verbatim>\<open>ended_at\<close>, \<^verbatim>\<open>approved\<close>, \<^verbatim>\<open>votes\<close>) and one
  column for the submitted content of a question; the defaults are the ones of the
  spec's data model: an identity from the table's sequence, the creation timestamp
  the current time, a null end timestamp, \<^verbatim>\<open>approved\<close> false and \<^verbatim>\<open>votes\<close> zero. The
  identity is the key of its table. Field names carry a prefix where the column name
  is a HOL constant or a keyword.
\<close>

record room =
  room_id :: nat
  visibleId :: string

record poll =
  poll_id :: nat
  poll_roomId :: nat
  poll_values :: tally
  poll_created_at :: nat
  poll_ended_at :: "nat option"

record question =
  q_id :: nat
  q_roomId :: nat
  q_content :: string
  q_approved :: bool
  q_votes :: int
  q_created_at :: nat

record store =
  Room :: "room list"
  Poll :: "poll list"
  Question :: "question list"
  Poll_seq :: nat
  Question_seq :: nat

text \<open>A question as it is transmitted: \<^verbatim>\<open>({ roomId: dropRoomId, ...question }) => question\<close>.\<close>

record question_out =
  o_id :: nat
  o_content :: string
  o_approved :: bool
  o_votes :: int
  o_created_at :: nat

definition strip_room :: "question \<Rightarrow> question_out" where
  "strip_room q = \<lparr>o_id = q_id q, o_content = q_content q, o_approved = q_approved q,
     o_votes = q_votes q, o_created_at = q_created_at q\<rparr>"

subsection \<open>The namespace pattern\<close>

text \<open>
  \<^verbatim>\<open>const roomRegEx = /^\/rooms\/(?:([^\/]+?))(?:\/([^\/]+?))?\/?$/i\<close>

  The literal \<^verbatim>\<open>/rooms/\<close> is matched without regard to case; a group is a non-empty
  run of characters other than \<^verbatim>\<open>/\<close>; the second group and the final \<^verbatim>\<open>/\<close> are
  optional. A group cannot hold a \<^verbatim>\<open>/\<close>, so a name has at most one match and the lazy
  quantifiers do not change it. \<open>roomRegEx_exec\<close> returns the groups 1 and 2
  (\<open>None\<close> for a group that did not take part, \<^verbatim>\<open>undefined\<close> in JavaScript).
\<close>

definition rooms_prefix :: "string \<Rightarrow> bool" where
  "rooms_prefix p =
     (case p of
        [c0, c1, c2, c3, c4, c5, c6] \<Rightarrow>
          c0 = CHR ''/'' \<and> (c1 = CHR ''r'' \<or> c1 = CHR ''R'') \<and> (c2 = CHR ''o'' \<or> c2 = CHR ''O'')
          \<and> (c3 = CHR ''o'' \<or> c3 = CHR ''O'') \<and> (c4 = CHR ''m'' \<or> c4 = CHR ''M'')
          \<and> (c5 = CHR ''s'' \<or> c5 = CHR ''S'') \<and> c6 = CHR ''/''
      | _ \<Rightarrow> False)"

definition split_seg :: "string \<Rightarrow> string \<times> string" where
  "split_seg s = (takeWhile (\<lambda>c. c \<noteq> CHR ''/'') s, dropWhile (\<lambda>c. c \<noteq> CHR ''/'') s)"

definition roomRegEx_exec :: "string \<Rightarrow> (string \<times> string option) option" where
  "roomRegEx_exec name =
     (if \<not> rooms_prefix (take 7 name) then None
      else let (g1, r1) = split_seg (drop 7 name) in
        if g1 = [] then None
        else if r1 = [] \<or> r1 = ''/'' then Some (g1, None)
        else let (g2, r2) = split_seg (tl r1) in
          if g2 \<noteq> [] \<and> (r2 = [] \<or> r2 = ''/'') then Some (g1, Some g2) else None)"

text \<open>
  The language of the pattern, read off the expression: the prefix, the first group,
  the optional \<^verbatim>\<open>/\<close> and second group, the optional final \<^verbatim>\<open>/\<close>.
\<close>

definition room_path :: "string \<Rightarrow> string \<Rightarrow> string option \<Rightarrow> bool" where
  "room_path name g1 g2 \<longleftrightarrow>
     (\<exists>pre trail. name = pre @ g1 @ (case g2 of None \<Rightarrow> [] | Some r \<Rightarrow> CHR ''/'' # r) @ trail
        \<and> rooms_prefix pre \<and> g1 \<noteq> [] \<and> CHR ''/'' \<notin> set g1
        \<and> (case g2 of None \<Rightarrow> True | Some r \<Rightarrow> r \<noteq> [] \<and> CHR ''/'' \<notin> set r)
        \<and> (trail = [] \<or> trail = ''/''))"

subsection \<open>Effects\<close>

text \<open>
  What a handler does besides changing the store, in program order:
  \<^verbatim>\<open>io.of(ns).emit(ev, payload)\<close>, \<^verbatim>\<open>socket.emit(ev, payload)\<close> on the handler's own
  socket, a call of the acknowledgement \<^verbatim>\<open>callback\<close>, the commit or the rollback that
  ends a transaction, and an error that leaves the \<^verbatim>\<open>async\<close> handler uncaught.
  \<open>SockEmitLater\<close> is a \<^verbatim>\<open>socket.emit\<close> in the \<^verbatim>\<open>then\<close> of a query that the handler
  started and did not await: it happens when the store has answered, and two of them
  happen in either order.
\<close>

datatype error = TypeError | StoreError

datatype payload =
    NoPayload
  | PollRef nat
  | Tally tally
  | Choice string
  | Failure error
  | Flag bool
  | Questions "question_out list"
  | QuestionRec question_out
  | Reaction string nat string

datatype effect =
    NspEmit string string payload
  | SockEmit string payload
  | SockEmitLater string payload
  | Callback payload
  | TxCommit
  | TxRollback
  | Unhandled error

definition viewer_nsp :: "string \<Rightarrow> string" where
  "viewer_nsp rn = ''/rooms/'' @ rn"

definition admin_nsp :: "string \<Rightarrow> string" where
  "admin_nsp rn = ''/rooms/'' @ rn @ ''/admin''"

subsection \<open>The authorizer and the connection handler\<close>

text \<open>\<^verbatim>\<open>next(null, false)\<close> and \<^verbatim>\<open>next(null, true)\<close>: an error argument and the verdict.\<close>

datatype next_call = Next "error option" bool

definition rooms_authorizer :: "store \<Rightarrow> string \<Rightarrow> next_call" where
  "rooms_authorizer db name =
     (case roomRegEx_exec name of
        None \<Rightarrow> Next None False
      | Some (g1, g2) \<Rightarrow>
          (case find (\<lambda>r. visibleId r = g1) (Room db) of
             None \<Rightarrow> Next None False
           | Some room \<Rightarrow> Next None True))"

text \<open>
  The per-connection context: the socket, the namespace it connected to, the
  variables \<^verbatim>\<open>roomName\<close>, \<^verbatim>\<open>roomId\<close> and \<^verbatim>\<open>admin\<close> that the handlers close over, and
  the events for which \<^verbatim>\<open>socket.on\<close> registered a handler.
\<close>

record session =
  sock :: nat
  nsp :: string
  roomName :: string
  roomId :: nat
  admin :: "string option"
  handlers :: "string list"

text \<open>The role of a session is the truthiness of \<^verbatim>\<open>admin\<close>, tested by \<^verbatim>\<open>if (admin)\<close>.\<close>

datatype role = Administrator | Viewer

definition bound_role :: "session \<Rightarrow> role" where
  "bound_role s = (if js_truthy (admin s) then Administrator else Viewer)"

definition admin_events :: "string list" where
  "admin_events = [''PollLaunch'', ''PollReveal'', ''PollToggle'', ''PollEnd'',
     ''QuestionApprove'', ''QuestionClear'']"

definition viewer_events :: "string list" where
  "viewer_events = [''PollResponse'', ''ReactionSend'']"

definition shared_events :: "string list" where
  "shared_events = [''QuestionAsk'', ''QuestionUpvote'', ''disconnect'']"

text \<open>
  \<^verbatim>\<open>.orderBy("created_at", "desc")\<close>. The query does not fix the order of two polls
  created at the same time; the model takes one.
\<close>

definition orderBy_created_at_desc :: "poll list \<Rightarrow> poll list" where
  "orderBy_created_at_desc ps = rev (sort_key poll_created_at ps)"

text \<open>
  \<^verbatim>\<open>if (polls.length && !polls[0].ended_at) socket.emit("PollStart", { id: polls[0].id })\<close>.
  An end timestamp is a date, which is truthy, or null.
\<close>

definition poll_replay :: "store \<Rightarrow> nat \<Rightarrow> effect list" where
  "poll_replay db rid =
     (case orderBy_created_at_desc (filter (\<lambda>p. poll_roomId p = rid) (Poll db)) of
        [] \<Rightarrow> []
      | p # _ \<Rightarrow>
          if poll_ended_at p = None then [SockEmitLater ''PollStart'' (PollRef (poll_id p))] else [])"

definition question_replay :: "store \<Rightarrow> nat \<Rightarrow> string option \<Rightarrow> effect list" where
  "question_replay db rid adm =
     (if js_truthy adm
      then [SockEmitLater ''QuestionNew''
              (Questions (map strip_room (filter (\<lambda>q. q_roomId q = rid) (Question db))))]
      else [SockEmitLater ''QuestionNew''
              (Questions (map strip_room
                 (filter (\<lambda>q. q_roomId q = rid \<and> q_approved q = True) (Question db))))])"

text \<open>
  The listener of \<^verbatim>\<open>rooms.on("connection", ...)\<close>. The two replay queries are started
  without \<^verbatim>\<open>await\<close>; the model answers them from the store as it is when the
  connection opens, and lists their emits in the order the queries are started, which
  is not the order they need arrive in. A room that is gone makes the destructuring
  of \<^verbatim>\<open>undefined\<close> throw.
\<close>

definition connection :: "store \<Rightarrow> nat \<Rightarrow> string \<Rightarrow> effect list \<times> session option" where
  "connection db sid name =
     (case roomRegEx_exec name of
        None \<Rightarrow> ([SockEmit ''RoomError'' NoPayload], None)
      | Some (rn, adm) \<Rightarrow>
          (case find (\<lambda>r. visibleId r = rn) (Room db) of
             None \<Rightarrow> ([Unhandled TypeError], None)
           | Some room \<Rightarrow>
               (poll_replay db (room_id room) @ question_replay db (room_id room) adm,
                Some \<lparr>sock = sid, nsp = name, roomName = rn, roomId = room_id room, admin = adm,
                      handlers = (if js_truthy adm then admin_events else viewer_events)
                                 @ shared_events\<rparr>)))"

subsection \<open>The namespaces of the server\<close>

text \<open>
  socket.io keeps the namespaces it has by name. The authorizer and the listener
  above belong to the parent namespace that \<^verbatim>\<open>io.of(async (name, auth, next) => ...)\<close>
  makes. When a client asks for a name the server does not have, the authorizer is
  called, and on its accepting the parent makes a child namespace of that name, which
  has the parent's listener. \<^verbatim>\<open>io.of(name)\<close> with a string, as the handlers call it to
  emit, returns the namespace of that name and, when there is none, makes a plain
  one, which has no listener. A client that asks for a name the server has is
  connected to that namespace without the authorizer: in a child the listener runs,
  in a plain namespace nothing runs, and the socket has no handler.
\<close>

datatype nsp_kind = Child | Plain

type_synonym registry = "(string \<times> nsp_kind) list"

definition io_of :: "string \<Rightarrow> registry \<Rightarrow> registry" where
  "io_of name reg = (case map_of reg name of None \<Rightarrow> reg @ [(name, Plain)] | Some k \<Rightarrow> reg)"

text \<open>The namespaces after the emits of a handler, each of which calls \<^verbatim>\<open>io.of\<close>.\<close>

fun namespaces_after :: "effect list \<Rightarrow> registry \<Rightarrow> registry" where
  "namespaces_after [] reg = reg"
| "namespaces_after (NspEmit ns ev p # es) reg = namespaces_after es (io_of ns reg)"
| "namespaces_after (e # es) reg = namespaces_after es reg"

datatype connected = Refused | Joined "effect list" "session option"

definition connect :: "store \<Rightarrow> registry \<Rightarrow> nat \<Rightarrow> string \<Rightarrow> registry \<times> connected" where
  "connect db reg sid name =
     (case map_of reg name of
        Some Plain \<Rightarrow> (reg, Joined [] None)
      | Some Child \<Rightarrow> (case connection db sid name of (effs, so) \<Rightarrow> (reg, Joined effs so))
      | None \<Rightarrow>
          (case rooms_authorizer db name of
             Next err ok \<Rightarrow>
               if err = None \<and> ok
               then (case connection db sid name of
                       (effs, so) \<Rightarrow> (reg @ [(name, Child)], Joined effs so))
               else (reg, Refused)))"

subsection \<open>Poll handlers\<close>

definition on_PollLaunch :: "session \<Rightarrow> nat \<Rightarrow> store \<Rightarrow> store \<times> effect list" where
  "on_PollLaunch s t db =
     (let p = \<lparr>poll_id = Poll_seq db, poll_roomId = roomId s, poll_values = zero_tally,
               poll_created_at = t, poll_ended_at = None\<rparr>
      in (db\<lparr>Poll := Poll db @ [p], Poll_seq := Suc (Poll_seq db)\<rparr>,
          [NspEmit (viewer_nsp (roomName s)) ''PollStart'' (PollRef (poll_id p)),
           Callback (PollRef (poll_id p))]))"

definition on_PollReveal :: "session \<Rightarrow> nat \<Rightarrow> store \<Rightarrow> store \<times> effect list" where
  "on_PollReveal s pollId db =
     (case find (\<lambda>p. poll_id p = pollId) (Poll db) of
        None \<Rightarrow> (db, [Unhandled TypeError])
      | Some p \<Rightarrow> (db, [NspEmit (viewer_nsp (roomName s)) ''PollResults'' (Tally (poll_values p))]))"

definition on_PollToggle :: "session \<Rightarrow> store \<Rightarrow> store \<times> effect list" where
  "on_PollToggle s db = (db, [NspEmit (viewer_nsp (roomName s)) ''PollToggle'' NoPayload])"

definition on_PollEnd :: "session \<Rightarrow> nat \<Rightarrow> nat \<Rightarrow> store \<Rightarrow> store \<times> effect list" where
  "on_PollEnd s t pollId db =
     (db\<lparr>Poll := map (\<lambda>p. if poll_id p = pollId then p\<lparr>poll_ended_at := Some t\<rparr> else p) (Poll db)\<rparr>,
      [NspEmit (viewer_nsp (roomName s)) ''PollEnd'' NoPayload, Callback (Flag True)])"

text \<open>
  The store may fail a statement of the response transaction; where it does is an
  input of the model.
\<close>

datatype store_fault = NoFault | ReadFault | WriteFault | CommitFault

text \<open>
  \<^verbatim>\<open>if (prevChoice) { poll.values[prevChoice] += -1; } poll.values[newChoice] += 1;\<close>
\<close>

definition update_counts :: "string option \<Rightarrow> string \<Rightarrow> tally \<Rightarrow> tally" where
  "update_counts prevChoice newChoice v =
     (let v1 = (case prevChoice of
                  None \<Rightarrow> v
                | Some c \<Rightarrow> if js_truthy prevChoice then add_assign v c MinusOne else v)
      in add_assign v1 newChoice PlusOne)"

text \<open>
  The transaction of \<^verbatim>\<open>PollResponse\<close> has two statements. The first,
  \<^verbatim>\<open>trx("Poll").first("values").where({ id: pollId })\<close>, reads the tally; it takes no
  lock. A poll that is not there makes \<^verbatim>\<open>poll.values\<close> throw.
\<close>

definition response_select :: "store_fault \<Rightarrow> nat \<Rightarrow> store \<Rightarrow> error + tally" where
  "response_select f pollId db =
     (if f = ReadFault then Inl StoreError
      else case find (\<lambda>p. poll_id p = pollId) (Poll db) of
             None \<Rightarrow> Inl TypeError
           | Some p \<Rightarrow> Inr (poll_values p))"

text \<open>
  The rest of the body works on the tally that was read: the two updates in memory,
  the write of the whole object to the rows of that identity, the emit to the
  administrators' namespace and the acknowledgement. A packet that came without an
  acknowledgement has \<^verbatim>\<open>callback\<close> undefined, and the call throws inside the body, after
  the emit. The result is what was emitted and the store of the transaction or the
  error that ends it.
\<close>

definition response_rest ::
  "session \<Rightarrow> store_fault \<Rightarrow> nat \<Rightarrow> string option \<Rightarrow> string \<Rightarrow> bool \<Rightarrow> tally \<Rightarrow> store
     \<Rightarrow> effect list \<times> (error + store)" where
  "response_rest s f pollId prevChoice newChoice cb vals db =
     (let v = update_counts prevChoice newChoice vals
      in if f = WriteFault then ([], Inl StoreError)
         else if cb
         then ([NspEmit (admin_nsp (roomName s)) ''PollResults'' (Tally v), Callback (Choice newChoice)],
               Inr (db\<lparr>Poll := map (\<lambda>q. if poll_id q = pollId
                                          then q\<lparr>poll_values := json_tally v\<rparr> else q) (Poll db)\<rparr>))
         else ([NspEmit (admin_nsp (roomName s)) ''PollResults'' (Tally v)], Inl TypeError))"

definition response_body ::
  "session \<Rightarrow> store_fault \<Rightarrow> nat \<Rightarrow> string option \<Rightarrow> string \<Rightarrow> bool \<Rightarrow> store
     \<Rightarrow> effect list \<times> (error + store)" where
  "response_body s f pollId prevChoice newChoice cb db =
     (case response_select f pollId db of
        Inl e \<Rightarrow> ([], Inl e)
      | Inr vals \<Rightarrow> response_rest s f pollId prevChoice newChoice cb vals db)"

text \<open>
  \<^verbatim>\<open>knex.transaction(async (trx) => ...)\<close>: the body runs on the transaction; when its
  promise resolves the transaction commits, when it rejects, or the commit fails,
  the store keeps what it had and the promise of the transaction rejects. What the
  body emitted has been emitted.
\<close>

definition knex_transaction ::
  "store_fault \<Rightarrow> (store \<Rightarrow> effect list \<times> (error + store)) \<Rightarrow> store
     \<Rightarrow> error option \<times> store \<times> effect list" where
  "knex_transaction f body db =
     (case body db of
        (effs, Inl e) \<Rightarrow> (Some e, db, effs @ [TxRollback])
      | (effs, Inr db') \<Rightarrow>
          if f = CommitFault then (Some StoreError, db, effs @ [TxRollback])
          else (None, db', effs @ [TxCommit]))"

text \<open>
  \<^verbatim>\<open>catch (error) { callback(error); }\<close>, which throws in its turn when there is no
  \<^verbatim>\<open>callback\<close>.
\<close>

definition catch_callback :: "bool \<Rightarrow> error option \<times> store \<times> effect list \<Rightarrow> store \<times> effect list" where
  "catch_callback cb r =
     (case r of
        (None, db', effs) \<Rightarrow> (db', effs)
      | (Some e, db', effs) \<Rightarrow>
          (db', effs @ [if cb then Callback (Failure e) else Unhandled TypeError]))"

text \<open>
  The handler takes the payload, or nothing where the packet had none, and whether
  the packet asked for an acknowledgement. The destructuring
  \<^verbatim>\<open>const { id: pollId, prevChoice, newChoice } = data\<close> stands before the \<^verbatim>\<open>try\<close> and
  throws on a payload that is \<^verbatim>\<open>undefined\<close> or \<^verbatim>\<open>null\<close>. In the payload the previous
  choice is a string or absent, and the new choice a string.
\<close>

definition on_PollResponse ::
  "session \<Rightarrow> store_fault \<Rightarrow> (nat \<times> string option \<times> string) option \<Rightarrow> bool \<Rightarrow> store
     \<Rightarrow> store \<times> effect list" where
  "on_PollResponse s f data cb db =
     (case data of
        None \<Rightarrow> (db, [Unhandled TypeError])
      | Some (pollId, prevChoice, newChoice) \<Rightarrow>
          catch_callback cb
            (knex_transaction f (response_body s f pollId prevChoice newChoice cb) db))"

text \<open>
  A transaction that has read its tally and not yet written: the requests still to be
  served before it goes on, and what its body holds.
\<close>

record pending =
  p_wait :: nat
  p_session :: session
  p_fault :: store_fault
  p_pollId :: nat
  p_prevChoice :: "string option"
  p_newChoice :: string
  p_values :: tally

definition complete_response :: "pending \<Rightarrow> store \<Rightarrow> store \<times> effect list" where
  "complete_response t db =
     catch_callback True
       (knex_transaction (p_fault t)
          (response_rest (p_session t) (p_fault t) (p_pollId t) (p_prevChoice t) (p_newChoice t) True
             (p_values t)) db)"

definition on_ReactionSend ::
  "session \<Rightarrow> string \<Rightarrow> nat \<Rightarrow> string option \<Rightarrow> store \<Rightarrow> store \<times> effect list" where
  "on_ReactionSend s uid pos codePoint db =
     (case codePoint of
        None \<Rightarrow> (db, [])
      | Some c \<Rightarrow>
          if js_truthy codePoint
          then (db, [NspEmit (viewer_nsp (roomName s)) ''ReactionShow'' (Reaction uid pos c)])
          else (db, []))"

subsection \<open>Question handlers\<close>

text \<open>
  \<^verbatim>\<open>.where({ id: questionId }).update({ approved: true }, ["*"])\<close> returns the rows it
  updated; the handler takes the first one. With no such row the destructuring of
  \<^verbatim>\<open>undefined\<close> throws, and nothing catches it.
\<close>

definition on_QuestionApprove :: "session \<Rightarrow> nat \<Rightarrow> store \<Rightarrow> store \<times> effect list" where
  "on_QuestionApprove s questionId db =
     (let rows = map (\<lambda>q. q\<lparr>q_approved := True\<rparr>) (filter (\<lambda>q. q_id q = questionId) (Question db));
          db' = db\<lparr>Question := map (\<lambda>q. if q_id q = questionId then q\<lparr>q_approved := True\<rparr> else q)
                                   (Question db)\<rparr>
      in case rows of
           [] \<Rightarrow> (db', [Unhandled TypeError])
         | q # _ \<Rightarrow>
             (db', [NspEmit (viewer_nsp (roomName s)) ''QuestionNew'' (Questions [strip_room q]),
                    Callback (QuestionRec (strip_room q))]))"

definition on_QuestionClear :: "session \<Rightarrow> store \<Rightarrow> store \<times> effect list" where
  "on_QuestionClear s db =
     (db\<lparr>Question := filter (\<lambda>q. q_roomId q \<noteq> roomId s) (Question db)\<rparr>,
      [NspEmit (viewer_nsp (roomName s)) ''QuestionClear'' NoPayload,
       SockEmit ''QuestionClear'' NoPayload])"

text \<open>
  The payload of \<^verbatim>\<open>QuestionAsk\<close> is spread into the inserted row,
  \<^verbatim>\<open>{ roomId, ...data, approved: false }\<close>: a key of the payload replaces what stands
  before the spread and is replaced by what stands after it, and every key of the
  payload is a column of the statement. The payload is an object with the content;
  each of the other columns of the table is there or not, with a value of the kind
  of the column; \<open>a_extra\<close> are the keys of the payload that are no column of the
  table.
\<close>

record ask_data =
  a_content :: string
  a_id :: "nat option"
  a_roomId :: "nat option"
  a_votes :: "int option"
  a_approved :: "bool option"
  a_created_at :: "nat option"
  a_extra :: "string list"

text \<open>The row of the statement; a column the row does not name takes its default.\<close>

definition ask_row :: "session \<Rightarrow> nat \<Rightarrow> ask_data \<Rightarrow> store \<Rightarrow> question" where
  "ask_row s t d db =
     \<lparr>q_id = (case a_id d of None \<Rightarrow> Question_seq db | Some i \<Rightarrow> i),
      q_roomId = (case a_roomId d of None \<Rightarrow> roomId s | Some r \<Rightarrow> r),
      q_content = a_content d,
      q_approved = False,
      q_votes = (case a_votes d of None \<Rightarrow> 0 | Some v \<Rightarrow> v),
      q_created_at = (case a_created_at d of None \<Rightarrow> t | Some c \<Rightarrow> c)\<rparr>"

text \<open>
  Nothing catches a failed insert: the handler ends there, with no acknowledgement
  and no emit. The store refuses a row that names a key which is no column, a row
  whose identity the table has, and a row that the types, ranges and constraints of
  the table exclude; these last are in the migrations, which are not among the
  sources, and are the parameter \<open>ok\<close>. The sequence gives the identity of a row
  that names none, and is then used up even when the table has that identity; in the
  other refusals the model leaves it. \<^verbatim>\<open>callback(true)\<close> comes before the emit and
  throws when the packet asked for no acknowledgement.
\<close>

definition on_QuestionAsk ::
  "session \<Rightarrow> nat \<Rightarrow> (question \<Rightarrow> bool) \<Rightarrow> ask_data \<Rightarrow> bool \<Rightarrow> store \<Rightarrow> store \<times> effect list" where
  "on_QuestionAsk s t ok d cb db =
     (let q = ask_row s t d db;
          seq = (case a_id d of None \<Rightarrow> Suc (Question_seq db) | Some i \<Rightarrow> Question_seq db)
      in if a_extra d = [] \<and> ok q
         then if q_id q \<in> q_id ` set (Question db)
              then (db\<lparr>Question_seq := seq\<rparr>, [Unhandled StoreError])
              else if cb
              then (db\<lparr>Question := Question db @ [q], Question_seq := seq\<rparr>,
                    [Callback (Flag True),
                     NspEmit (admin_nsp (roomName s)) ''QuestionNew'' (Questions [strip_room q])])
              else (db\<lparr>Question := Question db @ [q], Question_seq := seq\<rparr>, [Unhandled TypeError])
         else (db, [Unhandled StoreError]))"

definition on_QuestionUpvote :: "session \<Rightarrow> nat \<Rightarrow> store \<Rightarrow> store \<times> effect list" where
  "on_QuestionUpvote s questionId db =
     (let rows = map (\<lambda>q. q\<lparr>q_votes := q_votes q + 1\<rparr>) (filter (\<lambda>q. q_id q = questionId) (Question db));
          db' = db\<lparr>Question := map (\<lambda>q. if q_id q = questionId then q\<lparr>q_votes := q_votes q + 1\<rparr> else q)
                                   (Question db)\<rparr>
      in case rows of
           [] \<Rightarrow> (db', [Unhandled TypeError])
         | q # _ \<Rightarrow>
             (db', [NspEmit (viewer_nsp (roomName s)) ''QuestionNew'' (Questions [strip_room q]),
                    NspEmit (admin_nsp (roomName s)) ''QuestionNew'' (Questions [strip_room q])]))"

subsection \<open>Requests and runs\<close>

text \<open>
  A request is an event a client sends, with its payload object and, for the handlers
  that take one, the acknowledgement function; the handlers of \<^verbatim>\<open>PollResponse\<close> and
  \<^verbatim>\<open>QuestionAsk\<close> above also say what a packet without them does. The environment of
  a request is what the handler meets outside itself: the store's clock, where the
  store fails, the values of \<^verbatim>\<open>uuidv4()\<close> and \<^verbatim>\<open>Math.floor(Math.random() * 100)\<close>, the
  rows the store takes into the table of questions, and how many of the requests
  that follow the server serves between the select and the update of a response.
\<close>

datatype request =
    PollLaunch
  | PollReveal nat
  | PollToggle
  | PollEnd nat
  | QuestionApprove nat
  | QuestionClear
  | PollResponse nat "string option" string
  | ReactionSend "string option"
  | QuestionAsk ask_data
  | QuestionUpvote nat

fun event_name :: "request \<Rightarrow> string" where
  "event_name PollLaunch = ''PollLaunch''"
| "event_name (PollReveal _) = ''PollReveal''"
| "event_name PollToggle = ''PollToggle''"
| "event_name (PollEnd _) = ''PollEnd''"
| "event_name (QuestionApprove _) = ''QuestionApprove''"
| "event_name QuestionClear = ''QuestionClear''"
| "event_name (PollResponse _ _ _) = ''PollResponse''"
| "event_name (ReactionSend _) = ''ReactionSend''"
| "event_name (QuestionAsk _) = ''QuestionAsk''"
| "event_name (QuestionUpvote _) = ''QuestionUpvote''"

record env =
  now :: nat
  fault :: store_fault
  uuid :: string
  position :: nat
  row_ok :: "question \<Rightarrow> bool"
  overlap :: nat

fun run_handler :: "session \<Rightarrow> env \<Rightarrow> request \<Rightarrow> store \<Rightarrow> store \<times> effect list" where
  "run_handler s e PollLaunch db = on_PollLaunch s (now e) db"
| "run_handler s e (PollReveal pollId) db = on_PollReveal s pollId db"
| "run_handler s e PollToggle db = on_PollToggle s db"
| "run_handler s e (PollEnd pollId) db = on_PollEnd s (now e) pollId db"
| "run_handler s e (QuestionApprove questionId) db = on_QuestionApprove s questionId db"
| "run_handler s e QuestionClear db = on_QuestionClear s db"
| "run_handler s e (PollResponse pollId prevChoice newChoice) db =
     on_PollResponse s (fault e) (Some (pollId, prevChoice, newChoice)) True db"
| "run_handler s e (ReactionSend codePoint) db = on_ReactionSend s (uuid e) (position e) codePoint db"
| "run_handler s e (QuestionAsk d) db = on_QuestionAsk s (now e) (row_ok e) d True db"
| "run_handler s e (QuestionUpvote questionId) db = on_QuestionUpvote s questionId db"

text \<open>
  An event with no registered handler is dropped. \<open>handle\<close> is a handler served from
  its first statement to its last with no other in between.
\<close>

definition handle :: "session \<Rightarrow> env \<Rightarrow> request \<Rightarrow> store \<Rightarrow> store \<times> effect list" where
  "handle s e r db = (if event_name r \<in> set (handlers s) then run_handler s e r db else (db, []))"

text \<open>
  A run serves a list of requests. Every handler but that of \<^verbatim>\<open>PollResponse\<close> has one
  statement on the store. A response whose environment says \<open>overlap e = n\<close> with
  \<open>n > 0\<close> does its select when it is served; the rest of its transaction, which is
  one step from the update to the commit, comes when \<open>n\<close> more requests have been
  served, or at the end of the run. The store's isolation of transactions is its
  default, under which the update of a transaction waits for no select and
  overwrites what was committed since its own select.
\<close>

definition begin_step :: "store \<Rightarrow> session \<times> env \<times> request \<Rightarrow> store \<times> pending list" where
  "begin_step db x =
     (case x of
        (s, e, r) \<Rightarrow>
          (case r of
             PollResponse pollId prevChoice newChoice \<Rightarrow>
               if overlap e = 0 then (fst (handle s e r db), [])
               else if ''PollResponse'' \<in> set (handlers s)
               then (case response_select (fault e) pollId db of
                       Inl err \<Rightarrow> (db, [])
                     | Inr vals \<Rightarrow>
                         (db, [\<lparr>p_wait = overlap e, p_session = s, p_fault = fault e,
                                p_pollId = pollId, p_prevChoice = prevChoice,
                                p_newChoice = newChoice, p_values = vals\<rparr>]))
               else (db, [])
           | _ \<Rightarrow> (fst (handle s e r db), [])))"

fun tick :: "store \<Rightarrow> pending list \<Rightarrow> store \<times> pending list" where
  "tick db [] = (db, [])"
| "tick db (t # ts) =
     (if p_wait t \<le> 1 then tick (fst (complete_response t db)) ts
      else (case tick db ts of (db', ts') \<Rightarrow> (db', t\<lparr>p_wait := p_wait t - 1\<rparr> # ts')))"

fun flush :: "store \<Rightarrow> pending list \<Rightarrow> store" where
  "flush db [] = db"
| "flush db (t # ts) = flush (fst (complete_response t db)) ts"

fun run_pending :: "store \<Rightarrow> pending list \<Rightarrow> (session \<times> env \<times> request) list \<Rightarrow> store" where
  "run_pending db ts [] = flush db ts"
| "run_pending db ts (x # xs) =
     (case begin_step db x of
        (db1, new) \<Rightarrow> (case tick db1 ts of (db2, ts') \<Rightarrow> run_pending db2 (ts' @ new) xs))"

definition run :: "store \<Rightarrow> (session \<times> env \<times> request) list \<Rightarrow> store" where
  "run db steps = run_pending db [] steps"

subsection \<open>Delivery\<close>

text \<open>
  socket.io delivers \<^verbatim>\<open>io.of(ns).emit\<close> to every socket connected to the namespace
  named \<open>ns\<close>, and \<^verbatim>\<open>socket.emit\<close> to that socket. \<open>received s effs c\<close> is what the
  connection \<open>c\<close> receives of the effects of a handler of the session \<open>s\<close>.
\<close>

record conn =
  c_sock :: nat
  c_nsp :: string

fun delivered :: "session \<Rightarrow> conn \<Rightarrow> effect \<Rightarrow> (string \<times> payload) list" where
  "delivered s c (NspEmit ns ev p) = (if c_nsp c = ns then [(ev, p)] else [])"
| "delivered s c (SockEmit ev p) = (if c_sock c = sock s then [(ev, p)] else [])"
| "delivered s c (SockEmitLater ev p) = (if c_sock c = sock s then [(ev, p)] else [])"
| "delivered s c _ = []"

definition received :: "session \<Rightarrow> effect list \<Rightarrow> conn \<Rightarrow> (string \<times> payload) list" where
  "received s effs c = concat (map (delivered s c) effs)"

subsection \<open>Properties of tallies, stores and effect lists\<close>

definition count_int :: "tally \<Rightarrow> string \<Rightarrow> bool" where
  "count_int t l = (case map_of t l of Some (JNum n) \<Rightarrow> True | _ \<Rightarrow> False)"

definition count_ok :: "tally \<Rightarrow> string \<Rightarrow> bool" where
  "count_ok t l = (case map_of t l of Some (JNum n) \<Rightarrow> 0 \<le> n | _ \<Rightarrow> False)"

definition polls_int :: "store \<Rightarrow> bool" where
  "polls_int db = list_all (\<lambda>p. list_all (count_int (poll_values p)) choice_labels) (Poll db)"

definition polls_ok :: "store \<Rightarrow> bool" where
  "polls_ok db = list_all (\<lambda>p. list_all (count_ok (poll_values p)) choice_labels) (Poll db)"

text \<open>
  A response that names one of the five labels as its previous choice, and another
  as its new one, finds the count of the previous choice at least one in the tally it
  reads.
\<close>

definition response_guard :: "store \<Rightarrow> request \<Rightarrow> bool" where
  "response_guard db r =
     (case r of
        PollResponse pollId prevChoice newChoice \<Rightarrow>
          (case prevChoice of
             None \<Rightarrow> True
           | Some c \<Rightarrow>
               c = newChoice \<or> c \<notin> set choice_labels \<or>
               (case find (\<lambda>p. poll_id p = pollId) (Poll db) of
                  None \<Rightarrow> True
                | Some p \<Rightarrow> (case map_of (poll_values p) c of Some (JNum n) \<Rightarrow> 1 \<le> n | _ \<Rightarrow> False)))
      | _ \<Rightarrow> True)"

fun guarded_pending :: "store \<Rightarrow> pending list \<Rightarrow> (session \<times> env \<times> request) list \<Rightarrow> bool" where
  "guarded_pending db ts [] = True"
| "guarded_pending db ts (x # xs) =
     (response_guard db (snd (snd x)) \<and>
      (case begin_step db x of
         (db1, new) \<Rightarrow> (case tick db1 ts of (db2, ts') \<Rightarrow> guarded_pending db2 (ts' @ new) xs)))"

definition guarded :: "store \<Rightarrow> (session \<times> env \<times> request) list \<Rightarrow> bool" where
  "guarded db steps = guarded_pending db [] steps"

text \<open>Every emit to a namespace comes after the commit.\<close>

fun emits_after_commit :: "effect list \<Rightarrow> bool" where
  "emits_after_commit [] = True"
| "emits_after_commit (TxCommit # es) = True"
| "emits_after_commit (NspEmit ns ev p # es) = False"
| "emits_after_commit (e # es) = emits_after_commit es"

text \<open>The identities of the polls are below the sequence that numbers the next one.\<close>

definition poll_ids_fresh :: "store \<Rightarrow> bool" where
  "poll_ids_fresh db = list_all (\<lambda>p. poll_id p < Poll_seq db) (Poll db)"

text \<open>The identity is the key of the table of questions.\<close>

definition question_ids_fresh :: "store \<Rightarrow> bool" where
  "question_ids_fresh db = distinct (map q_id (Question db))"

text \<open>The range of a 32-bit integer column.\<close>

definition int4 :: "int \<Rightarrow> bool" where
  "int4 n = (- 2147483648 \<le> n \<and> n \<le> 2147483647)"

subsection \<open>A room with two administrators and two viewers\<close>

definition room_abc :: store where
  "room_abc = \<lparr>Room = [\<lparr>room_id = 7, visibleId = ''abc''\<rparr>, \<lparr>room_id = 8, visibleId = ''xyz''\<rparr>],
     Poll = [], Question = [], Poll_seq = 1, Question_seq = 1\<rparr>"

definition admin1 :: session where
  "admin1 = \<lparr>sock = 1, nsp = ''/rooms/abc/admin'', roomName = ''abc'', roomId = 7,
     admin = Some ''admin'', handlers = admin_events @ shared_events\<rparr>"

definition viewer3 :: session where
  "viewer3 = \<lparr>sock = 3, nsp = ''/rooms/abc'', roomName = ''abc'', roomId = 7,
     admin = None, handlers = viewer_events @ shared_events\<rparr>"

definition viewer4 :: session where
  "viewer4 = \<lparr>sock = 4, nsp = ''/rooms/abc'', roomName = ''abc'', roomId = 7,
     admin = None, handlers = viewer_events @ shared_events\<rparr>"

text \<open>An environment: no fault, no overlap, a store whose votes are 32-bit integers.\<close>

definition env0 :: env where
  "env0 = \<lparr>now = 100, fault = NoFault, uuid = ''u'', position = 0,
     row_ok = (\<lambda>q. int4 (q_votes q)), overlap = 0\<rparr>"

definition admin2 :: session where
  "admin2 = \<lparr>sock = 2, nsp = ''/rooms/abc/admin'', roomName = ''abc'', roomId = 7,
     admin = Some ''admin'', handlers = admin_events @ shared_events\<rparr>"


text \<open>The payload of a question that carries its content only.\<close>

definition ask_why :: ask_data where
  "ask_why = \<lparr>a_content = ''why'', a_id = None, a_roomId = None, a_votes = None,
     a_approved = None, a_created_at = None, a_extra = []\<rparr>"

text \<open>The room after an administrator launched a poll; after a viewer asked a question.\<close>

definition room_abc_poll :: store where
  "room_abc_poll = fst (handle admin1 env0 PollLaunch room_abc)"

definition room_abc_asked :: store where
  "room_abc_asked = fst (handle viewer3 env0 (QuestionAsk ask_why) room_abc)"

section \<open>The namespace pattern and the authorizer\<close>

subsection \<open>The matcher returns the groups of the pattern\<close>


lemma length_prefix: "rooms_prefix p \<Longrightarrow> length p = 7"
  unfolding rooms_prefix_def by (simp split: list.splits)

lemma split_seg_group:
  "CHR ''/'' \<notin> set g \<Longrightarrow> split_seg (g @ CHR ''/'' # r) = (g, CHR ''/'' # r)"
  by (induction g) (auto simp: split_seg_def)

lemma split_seg_end: "CHR ''/'' \<notin> set g \<Longrightarrow> split_seg g = (g, [])"
  by (induction g) (auto simp: split_seg_def)


lemma split_segD:
  "split_seg s = (g, r) \<Longrightarrow> s = g @ r \<and> CHR ''/'' \<notin> set g \<and> (r = [] \<or> (\<exists>r'. r = CHR ''/'' # r'))"
proof -
  assume a: "split_seg s = (g, r)"
  then have g: "g = takeWhile (\<lambda>c. c \<noteq> CHR ''/'') s" and r: "r = dropWhile (\<lambda>c. c \<noteq> CHR ''/'') s"
    by (simp_all add: split_seg_def)
  have 1: "s = g @ r" using g r by simp
  have 2: "CHR ''/'' \<notin> set g" using g by (auto dest: set_takeWhileD)
  have 3: "r = [] \<or> (\<exists>r'. r = CHR ''/'' # r')"
  proof (cases r)
    case Nil then show ?thesis by simp
  next
    case (Cons x xs)
    then have "\<not> (hd r \<noteq> CHR ''/'')" unfolding r using hd_dropWhile[of "\<lambda>c. c \<noteq> CHR ''/''" s] by auto
    with Cons show ?thesis by simp
  qed
  from 1 2 3 show ?thesis by blast
qed

lemma exec_complete:
  assumes "room_path name g1 g2"
  shows "roomRegEx_exec name = Some (g1, g2)"
proof -
  from assms obtain pre trail where
    n: "name = pre @ g1 @ (case g2 of None \<Rightarrow> [] | Some r \<Rightarrow> CHR ''/'' # r) @ trail"
    and p: "rooms_prefix pre" and g1: "g1 \<noteq> []" "CHR ''/'' \<notin> set g1"
    and g2: "case g2 of None \<Rightarrow> True | Some r \<Rightarrow> r \<noteq> [] \<and> CHR ''/'' \<notin> set r"
    and t: "trail = [] \<or> trail = ''/''"
    unfolding room_path_def by blast
  have l: "length pre = 7" using p by (rule length_prefix)
  have tk: "take 7 name = pre" and dr: "drop 7 name = g1 @ (case g2 of None \<Rightarrow> [] | Some r \<Rightarrow> CHR ''/'' # r) @ trail"
    using n l by simp_all
  have pk: "rooms_prefix (take 7 name)" using tk p by simp
  show ?thesis
  proof (cases g2)
    case None
    with dr t have s1: "split_seg (drop 7 name) = (g1, trail)"
      using split_seg_end[OF g1(2)] split_seg_group[OF g1(2), of "[]"] by auto
    show ?thesis unfolding roomRegEx_exec_def using pk s1 g1(1) t None by simp
  next
    case (Some r)
    with g2 have r: "r \<noteq> []" "CHR ''/'' \<notin> set r" by auto
    from dr Some have s1: "split_seg (drop 7 name) = (g1, CHR ''/'' # r @ trail)"
      using split_seg_group[OF g1(2), of "r @ trail"] by simp
    have s2: "split_seg (r @ trail) = (r, trail)"
      using t split_seg_end[OF r(2)] split_seg_group[OF r(2), of "[]"] by auto
    have ne: "r @ trail \<noteq> []" using r by simp
    show ?thesis unfolding roomRegEx_exec_def using pk s1 s2 g1(1) r(1) t Some ne by auto
  qed
qed

lemma exec_sound:
  assumes "roomRegEx_exec name = Some (g1, g2)"
  shows "room_path name g1 g2"
proof -
  from assms have p: "rooms_prefix (take 7 name)"
    unfolding roomRegEx_exec_def by (simp split: if_splits)
  obtain a r1 where s1: "split_seg (drop 7 name) = (a, r1)" by (cases "split_seg (drop 7 name)")
  note d1 = split_segD[OF s1]
  obtain b r2 where s2: "split_seg (tl r1) = (b, r2)" by (cases "split_seg (tl r1)")
  note d2 = split_segD[OF s2]
  have nm: "name = take 7 name @ drop 7 name" by simp
  from assms p s1 s2 have ex:
    "a \<noteq> [] \<and> (if r1 = [] \<or> r1 = ''/'' then g1 = a \<and> g2 = None
        else g1 = a \<and> g2 = Some b \<and> b \<noteq> [] \<and> (r2 = [] \<or> r2 = ''/''))"
    unfolding roomRegEx_exec_def by (simp split: if_splits)
  show ?thesis
  proof (cases "r1 = [] \<or> r1 = ''/''")
    case True
    with ex have e: "g1 = a" "g2 = None" "a \<noteq> []" by simp_all
    have "name = take 7 name @ g1 @ [] @ r1" using nm d1 e by simp
    then have "name = take 7 name @ g1 @ (case g2 of None \<Rightarrow> [] | Some r \<Rightarrow> CHR ''/'' # r) @ r1"
      using e by simp
    moreover have "g1 \<noteq> []" "CHR ''/'' \<notin> set g1" using e d1 by simp_all
    moreover have "case g2 of None \<Rightarrow> True | Some r \<Rightarrow> r \<noteq> [] \<and> CHR ''/'' \<notin> set r" using e by simp
    ultimately show ?thesis unfolding room_path_def using p True by blast
  next
    case False
    with ex have e: "g1 = a" "g2 = Some b" "a \<noteq> []" "b \<noteq> []" "r2 = [] \<or> r2 = ''/''" by simp_all
    from False d1 have r1: "r1 = CHR ''/'' # tl r1" by auto
    have "drop 7 name = a @ CHR ''/'' # b @ r2" using d1 d2 r1 by simp
    then have "name = take 7 name @ g1 @ (CHR ''/'' # b) @ r2" using nm e by simp
    then have "name = take 7 name @ g1 @ (case g2 of None \<Rightarrow> [] | Some r \<Rightarrow> CHR ''/'' # r) @ r2"
      using e by simp
    moreover have "g1 \<noteq> []" "CHR ''/'' \<notin> set g1" using e d1 by simp_all
    moreover have "case g2 of None \<Rightarrow> True | Some r \<Rightarrow> r \<noteq> [] \<and> CHR ''/'' \<notin> set r" using e d2 by simp
    ultimately show ?thesis unfolding room_path_def using p e(5) by blast
  qed
qed

lemma exec_iff: "roomRegEx_exec name = Some (g1, g2) \<longleftrightarrow> room_path name g1 g2"
  using exec_sound exec_complete by blast

lemma room_path_unique:
  "room_path name g1 g2 \<Longrightarrow> room_path name h1 h2 \<Longrightarrow> g1 = h1 \<and> g2 = h2"
proof -
  assume a: "room_path name g1 g2" and b: "room_path name h1 h2"
  have "Some (g1, g2) = Some (h1, h2)"
    using exec_complete[OF a] exec_complete[OF b] by simp
  then show ?thesis by simp
qed

subsection \<open>Acceptance\<close>

text \<open>
  C3: the authorizer accepts a namespace exactly when its name matches the pattern
  and a room has the first group as its visible identifier. In both cases it calls
  \<^verbatim>\<open>next\<close> with no error and the verdict, and nothing else: it is a function of the
  store that returns no store, the lookup being its only access. The pattern is the
  one of the source: without regard to case in \<^verbatim>\<open>/rooms/\<close>, with an optional final
  \<^verbatim>\<open>/\<close>.
\<close>

theorem authorizer_accepts_iff:
  "rooms_authorizer db name =
     Next None (\<exists>g1 g2. room_path name g1 g2 \<and> (\<exists>r\<in>set (Room db). visibleId r = g1))"
proof (cases "roomRegEx_exec name")
  case None
  then have "\<not> (\<exists>g1 g2. room_path name g1 g2)"
    using exec_complete by fastforce
  with None show ?thesis by (simp add: rooms_authorizer_def)
next
  case (Some m)
  obtain g1 g2 where m: "m = (g1, g2)" by (cases m)
  with Some have rp: "room_path name g1 g2" by (simp add: exec_sound)
  have "(\<exists>h1 h2. room_path name h1 h2 \<and> (\<exists>r\<in>set (Room db). visibleId r = h1))
        \<longleftrightarrow> (\<exists>r\<in>set (Room db). visibleId r = g1)"
    using rp room_path_unique by blast
  moreover have "rooms_authorizer db name =
      Next None (find (\<lambda>r. visibleId r = g1) (Room db) \<noteq> None)"
    using Some m by (simp add: rooms_authorizer_def split: option.splits)
  moreover have "find (\<lambda>r. visibleId r = g1) (Room db) \<noteq> None \<longleftrightarrow> (\<exists>r\<in>set (Room db). visibleId r = g1)"
    by (auto simp: find_None_iff)
  ultimately show ?thesis by simp
qed

theorem authorizer_accepts_iff_witness:
  "rooms_authorizer room_abc ''/Rooms/abc/'' = Next None True
   \<and> rooms_authorizer room_abc ''/rooms/nobody'' = Next None False
   \<and> rooms_authorizer room_abc ''/room/abc'' = Next None False"
proof -
  have e1: "roomRegEx_exec ''/Rooms/abc/'' = Some (''abc'', None)"
    by (simp add: roomRegEx_exec_def rooms_prefix_def split_seg_def)
  have e2: "roomRegEx_exec ''/rooms/nobody'' = Some (''nobody'', None)"
    by (simp add: roomRegEx_exec_def rooms_prefix_def split_seg_def)
  have e3: "roomRegEx_exec ''/room/abc'' = None"
    by (simp add: roomRegEx_exec_def rooms_prefix_def split_seg_def)
  have r1: "\<exists>g1 g2. room_path ''/Rooms/abc/'' g1 g2 \<and> (\<exists>r\<in>set (Room room_abc). visibleId r = g1)"
    using exec_sound[OF e1] by (auto simp: room_abc_def)
  have r2: "\<not> (\<exists>g1 g2. room_path ''/rooms/nobody'' g1 g2 \<and> (\<exists>r\<in>set (Room room_abc). visibleId r = g1))"
    using exec_complete[of "''/rooms/nobody''"] e2 by (auto simp: room_abc_def)
  have r3: "\<not> (\<exists>g1 g2. room_path ''/room/abc'' g1 g2 \<and> (\<exists>r\<in>set (Room room_abc). visibleId r = g1))"
    using exec_complete[of "''/room/abc''"] e3 by auto
  show ?thesis
    using authorizer_accepts_iff[of room_abc "''/Rooms/abc/''"]
      authorizer_accepts_iff[of room_abc "''/rooms/nobody''"]
      authorizer_accepts_iff[of room_abc "''/room/abc''"] r1 r2 r3
    by simp
qed

section \<open>Sessions\<close>

lemma connection_SomeD:
  assumes "connection db sid name = (effs, Some s)"
  shows "\<exists>room. roomRegEx_exec name = Some (roomName s, admin s)
           \<and> find (\<lambda>r. visibleId r = roomName s) (Room db) = Some room
           \<and> roomId s = room_id room \<and> sock s = sid \<and> nsp s = name
           \<and> handlers s = (if js_truthy (admin s) then admin_events else viewer_events) @ shared_events
           \<and> effs = poll_replay db (roomId s) @ question_replay db (roomId s) (admin s)"
  using assms unfolding connection_def
  by (auto split: option.splits prod.splits)

lemma accepted_connection:
  assumes "rooms_authorizer db name = Next None True"
  shows "\<exists>effs s. connection db sid name = (effs, Some s)"
  using assms unfolding rooms_authorizer_def connection_def
  by (auto split: option.splits prod.splits)

lemma js_truthy_group: "room_path name g1 g2 \<Longrightarrow> js_truthy g2 \<longleftrightarrow> g2 \<noteq> None"
  unfolding room_path_def js_truthy_def by (auto split: option.splits)

text \<open>
  Where the listener runs, the session is an administrator's exactly when the name
  has a second group, which is never empty.
\<close>

lemma listener_role:
  assumes "connection db sid name = (effs, Some s)"
  shows "(bound_role s = Administrator \<longleftrightarrow> (\<exists>g1 r. r \<noteq> [] \<and> room_path name g1 (Some r)))
         \<and> (bound_role s = Viewer \<longleftrightarrow> (\<exists>g1. room_path name g1 None))"
proof -
  from connection_SomeD[OF assms] have ex: "roomRegEx_exec name = Some (roomName s, admin s)"
    by auto
  have rp: "room_path name (roomName s) (admin s)" using ex by (rule exec_sound)
  have tr: "js_truthy (admin s) \<longleftrightarrow> admin s \<noteq> None" using rp by (rule js_truthy_group)
  have a: "bound_role s = Administrator \<longleftrightarrow> (\<exists>g1 r. r \<noteq> [] \<and> room_path name g1 (Some r))"
  proof
    assume "bound_role s = Administrator"
    then have "js_truthy (admin s)" by (simp add: bound_role_def split: if_splits)
    then obtain r where r: "admin s = Some r" "r \<noteq> []" by (auto simp: js_truthy_def split: option.splits)
    with rp show "\<exists>g1 r. r \<noteq> [] \<and> room_path name g1 (Some r)" by auto
  next
    assume "\<exists>g1 r. r \<noteq> [] \<and> room_path name g1 (Some r)"
    then obtain g1 r where "room_path name g1 (Some r)" by blast
    with rp have "admin s = Some r" using room_path_unique by blast
    with tr show "bound_role s = Administrator" by (simp add: bound_role_def)
  qed
  have v: "bound_role s = Viewer \<longleftrightarrow> (\<exists>g1. room_path name g1 None)"
  proof
    assume "bound_role s = Viewer"
    then have "\<not> js_truthy (admin s)" by (simp add: bound_role_def split: if_splits)
    with tr have "admin s = None" by simp
    with rp show "\<exists>g1. room_path name g1 None" by auto
  next
    assume "\<exists>g1. room_path name g1 None"
    then obtain g1 where "room_path name g1 None" by blast
    with rp have "admin s = None" using room_path_unique by blast
    with tr show "bound_role s = Viewer" by (simp add: bound_role_def)
  qed
  from a v show ?thesis by (rule conjI)
qed

text \<open>
  A name the server has no namespace of goes to the authorizer, and on its accepting
  the listener runs; a name of a plain namespace is connected with neither.
\<close>

lemma connect_new_name:
  assumes "map_of reg name = None" and "rooms_authorizer db name = Next None True"
  shows "\<exists>effs s. connect db reg sid name = (reg @ [(name, Child)], Joined effs (Some s))
           \<and> connection db sid name = (effs, Some s)"
proof -
  from accepted_connection[OF assms(2)] obtain effs s where "connection db sid name = (effs, Some s)"
    by blast
  then show ?thesis using assms by (simp add: connect_def)
qed

lemma connect_plain:
  assumes "map_of reg name = Some Plain"
  shows "connect db reg sid name = (reg, Joined [] None)"
  using assms by (simp add: connect_def)

lemma exec_abc_admin: "roomRegEx_exec ''/rooms/abc/admin'' = Some (''abc'', Some ''admin'')"
  by (simp add: roomRegEx_exec_def rooms_prefix_def split_seg_def)

lemma exec_abc: "roomRegEx_exec ''/rooms/abc'' = Some (''abc'', None)"
  by (simp add: roomRegEx_exec_def rooms_prefix_def split_seg_def)

lemma room_abc_asked_eq:
  "room_abc_asked = \<lparr>Room = [\<lparr>room_id = 7, visibleId = ''abc''\<rparr>, \<lparr>room_id = 8, visibleId = ''xyz''\<rparr>],
     Poll = [],
     Question = [\<lparr>q_id = 1, q_roomId = 7, q_content = ''why'', q_approved = False, q_votes = 0,
                  q_created_at = 100\<rparr>],
     Poll_seq = 1, Question_seq = 2\<rparr>"
  by (simp add: room_abc_asked_def handle_def viewer3_def viewer_events_def shared_events_def
      on_QuestionAsk_def ask_row_def ask_why_def Let_def room_abc_def env0_def int4_def)

text \<open>
  C4: the role is bound, and the handlers of the role are registered, by the listener
  of the parent namespace. \<^verbatim>\<open>QuestionAsk\<close> emits through
  \<^verbatim>\<open>io.of(`/rooms/${roomName}/admin`)\<close>; when no administrator has connected, this
  call makes the namespace of that name, a plain one. In the room \<open>abc\<close> a viewer
  connects and asks a question. The authorizer accepts the administrator's name, and
  on the namespaces as they were before the question an administrator who connects
  is given the session \<open>admin1\<close> with the administrator's handlers. On the namespaces
  as they are after the question the administrator is connected with no session: no
  role is bound, no handler is registered and nothing is replayed.
\<close>

theorem admin_after_QuestionAsk_unbound:
  "connect room_abc [] 3 ''/rooms/abc''
     = ([(''/rooms/abc'', Child)], Joined [SockEmitLater ''QuestionNew'' (Questions [])] (Some viewer3))
   \<and> handle viewer3 env0 (QuestionAsk ask_why) room_abc
     = (room_abc_asked,
        [Callback (Flag True),
         NspEmit ''/rooms/abc/admin'' ''QuestionNew''
           (Questions [\<lparr>o_id = 1, o_content = ''why'', o_approved = False, o_votes = 0,
                         o_created_at = 100\<rparr>])])
   \<and> namespaces_after (snd (handle viewer3 env0 (QuestionAsk ask_why) room_abc)) [(''/rooms/abc'', Child)]
     = [(''/rooms/abc'', Child), (''/rooms/abc/admin'', Plain)]
   \<and> rooms_authorizer room_abc_asked ''/rooms/abc/admin'' = Next None True
   \<and> snd (connect room_abc_asked [(''/rooms/abc'', Child)] 1 ''/rooms/abc/admin'')
     = Joined [SockEmitLater ''QuestionNew''
                 (Questions [\<lparr>o_id = 1, o_content = ''why'', o_approved = False, o_votes = 0,
                               o_created_at = 100\<rparr>])]
              (Some admin1)
   \<and> bound_role admin1 = Administrator
   \<and> handlers admin1 = admin_events @ shared_events
   \<and> connect room_abc_asked [(''/rooms/abc'', Child), (''/rooms/abc/admin'', Plain)] 1 ''/rooms/abc/admin''
     = ([(''/rooms/abc'', Child), (''/rooms/abc/admin'', Plain)], Joined [] None)"
proof (intro conjI)
  show "connect room_abc [] 3 ''/rooms/abc''
     = ([(''/rooms/abc'', Child)], Joined [SockEmitLater ''QuestionNew'' (Questions [])] (Some viewer3))"
    by (simp add: connect_def rooms_authorizer_def connection_def exec_abc room_abc_def
        poll_replay_def question_replay_def orderBy_created_at_desc_def js_truthy_def viewer3_def)
  have h: "handle viewer3 env0 (QuestionAsk ask_why) room_abc
     = (room_abc_asked,
        [Callback (Flag True),
         NspEmit ''/rooms/abc/admin'' ''QuestionNew''
           (Questions [\<lparr>o_id = 1, o_content = ''why'', o_approved = False, o_votes = 0,
                         o_created_at = 100\<rparr>])])"
    unfolding room_abc_asked_eq
    by (simp add: handle_def viewer3_def viewer_events_def shared_events_def
        on_QuestionAsk_def ask_row_def ask_why_def Let_def room_abc_def env0_def int4_def
        admin_nsp_def strip_room_def)
  show "handle viewer3 env0 (QuestionAsk ask_why) room_abc
     = (room_abc_asked,
        [Callback (Flag True),
         NspEmit ''/rooms/abc/admin'' ''QuestionNew''
           (Questions [\<lparr>o_id = 1, o_content = ''why'', o_approved = False, o_votes = 0,
                         o_created_at = 100\<rparr>])])"
    by (rule h)
  show "namespaces_after (snd (handle viewer3 env0 (QuestionAsk ask_why) room_abc)) [(''/rooms/abc'', Child)]
     = [(''/rooms/abc'', Child), (''/rooms/abc/admin'', Plain)]"
    unfolding h by (simp add: io_of_def)
  show "rooms_authorizer room_abc_asked ''/rooms/abc/admin'' = Next None True"
    by (simp add: rooms_authorizer_def exec_abc_admin room_abc_asked_eq)
  show "snd (connect room_abc_asked [(''/rooms/abc'', Child)] 1 ''/rooms/abc/admin'')
     = Joined [SockEmitLater ''QuestionNew''
                 (Questions [\<lparr>o_id = 1, o_content = ''why'', o_approved = False, o_votes = 0,
                               o_created_at = 100\<rparr>])]
              (Some admin1)"
    by (simp add: connect_def rooms_authorizer_def connection_def exec_abc_admin room_abc_asked_eq
        poll_replay_def question_replay_def orderBy_created_at_desc_def js_truthy_def admin1_def
        strip_room_def)
  show "bound_role admin1 = Administrator"
    by (simp add: bound_role_def admin1_def js_truthy_def)
  show "handlers admin1 = admin_events @ shared_events"
    by (simp add: admin1_def)
  show "connect room_abc_asked [(''/rooms/abc'', Child), (''/rooms/abc/admin'', Plain)] 1 ''/rooms/abc/admin''
     = ([(''/rooms/abc'', Child), (''/rooms/abc/admin'', Plain)], Joined [] None)"
    by (simp add: connect_def)
qed

section \<open>The response transaction\<close>

lemma map_of_add_assign_other:
  assumes "l \<noteq> k"
  shows "map_of (add_assign t k a) l = map_of t l"
proof (cases "map_of t k")
  case None
  then show ?thesis using assms by (auto simp: add_assign_def map_add_def split: option.splits)
next
  case (Some v)
  then show ?thesis using assms by (simp add: add_assign_def update_conv')
qed

lemma map_of_add_assign_num:
  assumes "map_of t k = Some (JNum n)"
  shows "map_of (add_assign t k a) k = Some (JNum (double_add n a))"
  using assms by (simp add: add_assign_def update_conv')

lemma map_of_json_tally: "map_of (json_tally t) l = map_option to_json (map_of t l)"
  by (simp add: json_tally_def map_of_map)

lemma double_add_exact:
  assumes "\<bar>n + addend_val a\<bar> \<le> 9007199254740992"
  shows "double_add n a = n + addend_val a"
  using assms by (simp add: double_add_def)

lemma double_add_nonneg:
  assumes "0 \<le> n + addend_val a"
  shows "0 \<le> double_add n a"
proof (cases "\<bar>n + addend_val a\<bar> \<le> 9007199254740992")
  case True
  then show ?thesis using assms by (simp add: double_add_def)
next
  case False
  with assms have "9007199254740992 < n + addend_val a" by arith
  moreover have "- 1 \<le> addend_val a" "addend_val a \<le> 1" by (cases a; simp)+
  ultimately have "0 \<le> n" "0 \<le> n + 2 * addend_val a" by arith+
  then show ?thesis by (simp add: double_add_def)
qed

lemma on_PollResponse_commit:
  assumes "find (\<lambda>p. poll_id p = pollId) (Poll db) = Some p"
  shows "on_PollResponse s NoFault (Some (pollId, prevChoice, newChoice)) True db =
    (db\<lparr>Poll := map (\<lambda>q. if poll_id q = pollId
                         then q\<lparr>poll_values := json_tally (update_counts prevChoice newChoice (poll_values p))\<rparr>
                         else q) (Poll db)\<rparr>,
     [NspEmit (admin_nsp (roomName s)) ''PollResults''
        (Tally (update_counts prevChoice newChoice (poll_values p))),
      Callback (Choice newChoice), TxCommit])"
  using assms
  by (simp add: on_PollResponse_def catch_callback_def knex_transaction_def response_body_def
      response_select_def response_rest_def Let_def)

lemma on_PollResponse_commit_fault:
  assumes "find (\<lambda>p. poll_id p = pollId) (Poll db) = Some p"
  shows "on_PollResponse s CommitFault (Some (pollId, prevChoice, newChoice)) True db =
    (db,
     [NspEmit (admin_nsp (roomName s)) ''PollResults''
        (Tally (update_counts prevChoice newChoice (poll_values p))),
      Callback (Choice newChoice), TxRollback, Callback (Failure StoreError)])"
  using assms
  by (simp add: on_PollResponse_def catch_callback_def knex_transaction_def response_body_def
      response_select_def response_rest_def Let_def)

lemma on_PollResponse_body_fails:
  assumes "f = ReadFault \<or> f = WriteFault \<or> find (\<lambda>p. poll_id p = pollId) (Poll db) = None"
  shows "on_PollResponse s f (Some (pollId, prevChoice, newChoice)) True db =
    (db, [TxRollback,
          Callback (Failure (if f \<noteq> ReadFault \<and> find (\<lambda>p. poll_id p = pollId) (Poll db) = None
                             then TypeError else StoreError))])"
  using assms
  by (auto simp: on_PollResponse_def catch_callback_def knex_transaction_def response_body_def
      response_select_def response_rest_def Let_def split: option.splits)

lemma on_PollResponse_cases:
  "(f = ReadFault \<or> f = WriteFault \<or> find (\<lambda>p. poll_id p = pollId) (Poll db) = None)
   \<or> (\<exists>p. find (\<lambda>p. poll_id p = pollId) (Poll db) = Some p \<and> (f = NoFault \<or> f = CommitFault))"
  by (cases f; cases "find (\<lambda>p. poll_id p = pollId) (Poll db)") auto

text \<open>A payload that is not an object, and a packet without acknowledgement.\<close>

lemma on_PollResponse_no_payload: "on_PollResponse s f None cb db = (db, [Unhandled TypeError])"
  by (simp add: on_PollResponse_def)

lemma on_PollResponse_no_callback:
  "\<exists>effs. on_PollResponse s f (Some (pollId, prevChoice, newChoice)) False db
            = (db, effs @ [TxRollback, Unhandled TypeError])"
  by (cases "find (\<lambda>p. poll_id p = pollId) (Poll db)")
     (auto simp: on_PollResponse_def catch_callback_def knex_transaction_def response_body_def
        response_select_def response_rest_def Let_def)

lemma room_abc_poll_eq:
  "room_abc_poll = \<lparr>Room = [\<lparr>room_id = 7, visibleId = ''abc''\<rparr>, \<lparr>room_id = 8, visibleId = ''xyz''\<rparr>],
     Poll = [\<lparr>poll_id = 1, poll_roomId = 7,
              poll_values = [(''A'', JNum 0), (''B'', JNum 0), (''C'', JNum 0), (''D'', JNum 0), (''E'', JNum 0)],
              poll_created_at = 100, poll_ended_at = None\<rparr>],
     Question = [], Poll_seq = 2, Question_seq = 1\<rparr>"
  by (simp add: room_abc_poll_def handle_def admin1_def admin_events_def on_PollLaunch_def
      Let_def room_abc_def env0_def zero_tally_def choice_labels_def)

lemma update_None_A:
  "update_counts None ''A''
     [(''A'', JNum 0), (''B'', JNum 0), (''C'', JNum 0), (''D'', JNum 0), (''E'', JNum 0)]
   = [(''A'', JNum 1), (''B'', JNum 0), (''C'', JNum 0), (''D'', JNum 0), (''E'', JNum 0)]"
  by (simp add: update_counts_def add_assign_def double_add_def)

lemma update_None_B:
  "update_counts None ''B''
     [(''A'', JNum a), (''B'', JNum 0), (''C'', JNum 0), (''D'', JNum 0), (''E'', JNum 0)]
   = [(''A'', JNum a), (''B'', JNum 1), (''C'', JNum 0), (''D'', JNum 0), (''E'', JNum 0)]"
  by (simp add: update_counts_def add_assign_def double_add_def)

lemma handle_viewer_response:
  "handle viewer3 e (PollResponse pollId prevChoice newChoice) db
     = on_PollResponse viewer3 (fault e) (Some (pollId, prevChoice, newChoice)) True db"
  "handle viewer4 e (PollResponse pollId prevChoice newChoice) db
     = on_PollResponse viewer4 (fault e) (Some (pollId, prevChoice, newChoice)) True db"
  by (simp_all add: handle_def viewer3_def viewer4_def viewer_events_def)

lemma room_abc_A:
  "fst (handle viewer3 env0 (PollResponse 1 None ''A'') room_abc_poll) =
     \<lparr>Room = [\<lparr>room_id = 7, visibleId = ''abc''\<rparr>, \<lparr>room_id = 8, visibleId = ''xyz''\<rparr>],
      Poll = [\<lparr>poll_id = 1, poll_roomId = 7,
               poll_values = [(''A'', JNum 1), (''B'', JNum 0), (''C'', JNum 0), (''D'', JNum 0), (''E'', JNum 0)],
               poll_created_at = 100, poll_ended_at = None\<rparr>],
      Question = [], Poll_seq = 2, Question_seq = 1\<rparr>"
proof -
  have f: "find (\<lambda>p. poll_id p = 1) (Poll room_abc_poll) = Some (hd (Poll room_abc_poll))"
    by (simp add: room_abc_poll_eq)
  have e: "fault env0 = NoFault" by (simp add: env0_def)
  show ?thesis
    unfolding handle_viewer_response e on_PollResponse_commit[OF f]
    by (simp add: room_abc_poll_eq update_None_A json_tally_def)
qed

lemma room_abc_B:
  "fst (handle viewer4 env0 (PollResponse 1 None ''B'') room_abc_poll) =
     \<lparr>Room = [\<lparr>room_id = 7, visibleId = ''abc''\<rparr>, \<lparr>room_id = 8, visibleId = ''xyz''\<rparr>],
      Poll = [\<lparr>poll_id = 1, poll_roomId = 7,
               poll_values = [(''A'', JNum 0), (''B'', JNum 1), (''C'', JNum 0), (''D'', JNum 0), (''E'', JNum 0)],
               poll_created_at = 100, poll_ended_at = None\<rparr>],
      Question = [], Poll_seq = 2, Question_seq = 1\<rparr>"
proof -
  have f: "find (\<lambda>p. poll_id p = 1) (Poll room_abc_poll) = Some (hd (Poll room_abc_poll))"
    by (simp add: room_abc_poll_eq)
  have e: "fault env0 = NoFault" by (simp add: env0_def)
  show ?thesis
    unfolding handle_viewer_response e on_PollResponse_commit[OF f]
    by (simp add: room_abc_poll_eq update_None_B json_tally_def)
qed

lemma room_abc_A_B:
  "fst (handle viewer4 env0 (PollResponse 1 None ''B'')
          (fst (handle viewer3 env0 (PollResponse 1 None ''A'') room_abc_poll))) =
     \<lparr>Room = [\<lparr>room_id = 7, visibleId = ''abc''\<rparr>, \<lparr>room_id = 8, visibleId = ''xyz''\<rparr>],
      Poll = [\<lparr>poll_id = 1, poll_roomId = 7,
               poll_values = [(''A'', JNum 1), (''B'', JNum 1), (''C'', JNum 0), (''D'', JNum 0), (''E'', JNum 0)],
               poll_created_at = 100, poll_ended_at = None\<rparr>],
      Question = [], Poll_seq = 2, Question_seq = 1\<rparr>"
proof -
  let ?db = "fst (handle viewer3 env0 (PollResponse 1 None ''A'') room_abc_poll)"
  have f: "find (\<lambda>p. poll_id p = 1) (Poll ?db) = Some (hd (Poll ?db))"
    unfolding room_abc_A by simp
  have e: "fault env0 = NoFault" by (simp add: env0_def)
  show ?thesis
    unfolding handle_viewer_response(2) e on_PollResponse_commit[OF f]
    unfolding room_abc_A
    by (simp add: update_None_B json_tally_def)
qed

text \<open>
  C1: the comment in the handler says \<^verbatim>\<open>Perform the operations as a transaction so the
  update is atomic\<close>. The select of the tally takes no lock, and the update writes
  the whole object that was read and changed in memory. On the poll just launched in
  the room \<open>abc\<close> one viewer answers \<^verbatim>\<open>A\<close> and another \<^verbatim>\<open>B\<close>, neither with a previous
  choice. The first response reads the tally, all zero; the second is served from its
  select to its commit and stores \<^verbatim>\<open>B\<close> at one; the first then writes what it read
  with \<^verbatim>\<open>A\<close> at one, so that \<^verbatim>\<open>B\<close> is zero again, emits this tally to the
  administrators, acknowledges \<^verbatim>\<open>A\<close> and commits. Both viewers were acknowledged and the
  poll holds one answer; a response with no previous choice took the count of \<^verbatim>\<open>B\<close>
  from one to zero. Served one after the other the two responses leave \<^verbatim>\<open>A\<close> and
  \<^verbatim>\<open>B\<close> at one each.
\<close>

theorem overlapping_responses_lose_a_vote:
  "response_select NoFault 1 room_abc_poll
     = Inr [(''A'', JNum 0), (''B'', JNum 0), (''C'', JNum 0), (''D'', JNum 0), (''E'', JNum 0)]
   \<and> map (\<lambda>p. (poll_id p, poll_values p))
          (Poll (fst (handle viewer4 env0 (PollResponse 1 None ''B'') room_abc_poll)))
     = [(1, [(''A'', JNum 0), (''B'', JNum 1), (''C'', JNum 0), (''D'', JNum 0), (''E'', JNum 0)])]
   \<and> snd (handle viewer4 env0 (PollResponse 1 None ''B'') room_abc_poll)
     = [NspEmit ''/rooms/abc/admin'' ''PollResults''
          (Tally [(''A'', JNum 0), (''B'', JNum 1), (''C'', JNum 0), (''D'', JNum 0), (''E'', JNum 0)]),
        Callback (Choice ''B''), TxCommit]
   \<and> snd (complete_response
            \<lparr>p_wait = 1, p_session = viewer3, p_fault = NoFault, p_pollId = 1, p_prevChoice = None,
             p_newChoice = ''A'',
             p_values = [(''A'', JNum 0), (''B'', JNum 0), (''C'', JNum 0), (''D'', JNum 0),
                         (''E'', JNum 0)]\<rparr>
            (fst (handle viewer4 env0 (PollResponse 1 None ''B'') room_abc_poll)))
     = [NspEmit ''/rooms/abc/admin'' ''PollResults''
          (Tally [(''A'', JNum 1), (''B'', JNum 0), (''C'', JNum 0), (''D'', JNum 0), (''E'', JNum 0)]),
        Callback (Choice ''A''), TxCommit]
   \<and> map (\<lambda>p. (poll_id p, poll_values p))
          (Poll (run room_abc_poll
                   [(viewer3, env0\<lparr>overlap := 1\<rparr>, PollResponse 1 None ''A''),
                    (viewer4, env0, PollResponse 1 None ''B'')]))
     = [(1, [(''A'', JNum 1), (''B'', JNum 0), (''C'', JNum 0), (''D'', JNum 0), (''E'', JNum 0)])]
   \<and> map (\<lambda>p. (poll_id p, poll_values p))
          (Poll (run room_abc_poll
                   [(viewer3, env0, PollResponse 1 None ''A''),
                    (viewer4, env0, PollResponse 1 None ''B'')]))
     = [(1, [(''A'', JNum 1), (''B'', JNum 1), (''C'', JNum 0), (''D'', JNum 0), (''E'', JNum 0)])]"
proof (intro conjI)
  let ?zero = "[(''A'', JNum 0), (''B'', JNum 0), (''C'', JNum 0), (''D'', JNum 0), (''E'', JNum 0)]"
  let ?t = "\<lparr>p_wait = 1, p_session = viewer3, p_fault = NoFault, p_pollId = 1, p_prevChoice = None,
             p_newChoice = ''A'', p_values = ?zero\<rparr>"
  let ?dbB = "fst (handle viewer4 env0 (PollResponse 1 None ''B'') room_abc_poll)"
  have sel: "response_select NoFault 1 room_abc_poll = Inr ?zero"
    by (simp add: response_select_def room_abc_poll_eq)
  show "response_select NoFault 1 room_abc_poll = Inr ?zero" by (rule sel)
  show "map (\<lambda>p. (poll_id p, poll_values p)) (Poll ?dbB)
     = [(1, [(''A'', JNum 0), (''B'', JNum 1), (''C'', JNum 0), (''D'', JNum 0), (''E'', JNum 0)])]"
    unfolding room_abc_B by simp
  have f: "find (\<lambda>p. poll_id p = 1) (Poll room_abc_poll) = Some (hd (Poll room_abc_poll))"
    by (simp add: room_abc_poll_eq)
  have e: "fault env0 = NoFault" by (simp add: env0_def)
  show "snd (handle viewer4 env0 (PollResponse 1 None ''B'') room_abc_poll)
     = [NspEmit ''/rooms/abc/admin'' ''PollResults''
          (Tally [(''A'', JNum 0), (''B'', JNum 1), (''C'', JNum 0), (''D'', JNum 0), (''E'', JNum 0)]),
        Callback (Choice ''B''), TxCommit]"
    unfolding handle_viewer_response e on_PollResponse_commit[OF f]
    by (simp add: room_abc_poll_eq update_None_B admin_nsp_def viewer4_def)
  have c: "complete_response ?t ?dbB =
      (\<lparr>Room = [\<lparr>room_id = 7, visibleId = ''abc''\<rparr>, \<lparr>room_id = 8, visibleId = ''xyz''\<rparr>],
        Poll = [\<lparr>poll_id = 1, poll_roomId = 7,
                 poll_values = [(''A'', JNum 1), (''B'', JNum 0), (''C'', JNum 0), (''D'', JNum 0),
                                (''E'', JNum 0)],
                 poll_created_at = 100, poll_ended_at = None\<rparr>],
        Question = [], Poll_seq = 2, Question_seq = 1\<rparr>,
       [NspEmit ''/rooms/abc/admin'' ''PollResults''
          (Tally [(''A'', JNum 1), (''B'', JNum 0), (''C'', JNum 0), (''D'', JNum 0), (''E'', JNum 0)]),
        Callback (Choice ''A''), TxCommit])"
    unfolding room_abc_B
    by (simp add: complete_response_def catch_callback_def knex_transaction_def response_rest_def
        Let_def update_None_A json_tally_def admin_nsp_def viewer3_def)
  show "snd (complete_response ?t ?dbB)
     = [NspEmit ''/rooms/abc/admin'' ''PollResults''
          (Tally [(''A'', JNum 1), (''B'', JNum 0), (''C'', JNum 0), (''D'', JNum 0), (''E'', JNum 0)]),
        Callback (Choice ''A''), TxCommit]"
    unfolding c by simp
  have b1: "begin_step room_abc_poll (viewer3, env0\<lparr>overlap := 1\<rparr>, PollResponse 1 None ''A'')
      = (room_abc_poll, [?t])"
    using sel by (simp add: begin_step_def env0_def viewer3_def viewer_events_def)
  have b2: "begin_step room_abc_poll (viewer4, env0, PollResponse 1 None ''B'') = (?dbB, [])"
    by (simp add: begin_step_def env0_def)
  have "run room_abc_poll [(viewer3, env0\<lparr>overlap := 1\<rparr>, PollResponse 1 None ''A''),
                           (viewer4, env0, PollResponse 1 None ''B'')]
        = fst (complete_response ?t ?dbB)"
    using b1 b2 by (simp add: run_def)
  then show "map (\<lambda>p. (poll_id p, poll_values p))
          (Poll (run room_abc_poll
                   [(viewer3, env0\<lparr>overlap := 1\<rparr>, PollResponse 1 None ''A''),
                    (viewer4, env0, PollResponse 1 None ''B'')]))
     = [(1, [(''A'', JNum 1), (''B'', JNum 0), (''C'', JNum 0), (''D'', JNum 0), (''E'', JNum 0)])]"
    unfolding c by simp
  have b3: "begin_step room_abc_poll (viewer3, env0, PollResponse 1 None ''A'')
      = (fst (handle viewer3 env0 (PollResponse 1 None ''A'') room_abc_poll), [])"
    by (simp add: begin_step_def env0_def)
  have b4: "begin_step (fst (handle viewer3 env0 (PollResponse 1 None ''A'') room_abc_poll))
              (viewer4, env0, PollResponse 1 None ''B'')
      = (fst (handle viewer4 env0 (PollResponse 1 None ''B'')
               (fst (handle viewer3 env0 (PollResponse 1 None ''A'') room_abc_poll))), [])"
    by (simp add: begin_step_def env0_def)
  have "run room_abc_poll [(viewer3, env0, PollResponse 1 None ''A''),
                           (viewer4, env0, PollResponse 1 None ''B'')]
        = fst (handle viewer4 env0 (PollResponse 1 None ''B'')
               (fst (handle viewer3 env0 (PollResponse 1 None ''A'') room_abc_poll)))"
    using b3 b4 by (simp add: run_def)
  then show "map (\<lambda>p. (poll_id p, poll_values p))
          (Poll (run room_abc_poll
                   [(viewer3, env0, PollResponse 1 None ''A''),
                    (viewer4, env0, PollResponse 1 None ''B'')]))
     = [(1, [(''A'', JNum 1), (''B'', JNum 1), (''C'', JNum 0), (''D'', JNum 0), (''E'', JNum 0)])]"
    unfolding room_abc_A_B by simp
qed

lemma admin_nsp_not_viewer: "admin_nsp rn \<noteq> viewer_nsp rn"
  by (simp add: admin_nsp_def viewer_nsp_def)

text \<open>
  C5 (amended): for a response whose payload is an object and that asks for an
  acknowledgement, the emit of the updated tally and the acknowledgement with the new
  choice stand inside the body of the transaction, after the write and before the
  commit. The emit goes to the administrators' namespace of the room only; no
  connection outside that namespace receives anything, and no error leaves the
  handler. When the body fails (a poll that is not there, a failed read or write)
  the store is unchanged, nothing is emitted and the callback gets the failure.
\<close>

theorem PollResponse_effects:
  "(let R = on_PollResponse s f (Some (pollId, prevChoice, newChoice)) True db;
        v = update_counts prevChoice newChoice (poll_values p) in
    (\<forall>ns ev x. NspEmit ns ev x \<in> set (snd R) \<longrightarrow> ns = admin_nsp (roomName s) \<and> ev = ''PollResults'')
    \<and> (\<forall>ev x. SockEmit ev x \<notin> set (snd R) \<and> SockEmitLater ev x \<notin> set (snd R))
    \<and> (\<forall>e. Unhandled e \<notin> set (snd R))
    \<and> (\<forall>c. c_nsp c \<noteq> admin_nsp (roomName s) \<longrightarrow> received s (snd R) c = [])
    \<and> (f = NoFault \<and> find (\<lambda>p. poll_id p = pollId) (Poll db) = Some p \<longrightarrow>
          fst R = db\<lparr>Poll := map (\<lambda>q. if poll_id q = pollId then q\<lparr>poll_values := json_tally v\<rparr> else q)
                                 (Poll db)\<rparr>
          \<and> snd R = [NspEmit (admin_nsp (roomName s)) ''PollResults'' (Tally v),
                     Callback (Choice newChoice), TxCommit])
    \<and> (f = ReadFault \<or> f = WriteFault \<or> find (\<lambda>p. poll_id p = pollId) (Poll db) = None \<longrightarrow>
          fst R = db \<and> (\<exists>e. snd R = [TxRollback, Callback (Failure e)])
          \<and> (\<forall>c. received s (snd R) c = [])))"
proof -
  consider (fail) "f = ReadFault \<or> f = WriteFault \<or> find (\<lambda>p. poll_id p = pollId) (Poll db) = None"
    | (ok) q where "find (\<lambda>p. poll_id p = pollId) (Poll db) = Some q" "f = NoFault"
    | (cf) q where "find (\<lambda>p. poll_id p = pollId) (Poll db) = Some q" "f = CommitFault"
    using on_PollResponse_cases[of f pollId db] by fastforce
  then show ?thesis
  proof cases
    case fail
    have nf: "f \<noteq> NoFault \<or> find (\<lambda>p. poll_id p = pollId) (Poll db) \<noteq> Some p"
      using fail by auto
    show ?thesis
      unfolding Let_def on_PollResponse_body_fails[OF fail]
      using nf fail by (auto simp: received_def)
  next
    case ok
    show ?thesis
      unfolding Let_def on_PollResponse_commit[OF ok(1), unfolded ok(2)[symmetric]]
      using ok by (auto simp: received_def)
  next
    case cf
    show ?thesis
      unfolding Let_def on_PollResponse_commit_fault[OF cf(1), unfolded cf(2)[symmetric]]
      using cf by (auto simp: received_def)
  qed
qed

theorem PollResponse_effects_witness:
  "snd (on_PollResponse viewer3 NoFault (Some (1, None, ''A'')) True room_abc_poll) =
     [NspEmit ''/rooms/abc/admin'' ''PollResults''
        (Tally [(''A'', JNum 1), (''B'', JNum 0), (''C'', JNum 0), (''D'', JNum 0), (''E'', JNum 0)]),
      Callback (Choice ''A''), TxCommit]
   \<and> on_PollResponse viewer3 NoFault (Some (2, None, ''A'')) True room_abc_poll
       = (room_abc_poll, [TxRollback, Callback (Failure TypeError)])
   \<and> received viewer3 (snd (on_PollResponse viewer3 NoFault (Some (1, None, ''A'')) True room_abc_poll))
        \<lparr>c_sock = 3, c_nsp = ''/rooms/abc''\<rparr> = []
   \<and> Unhandled StoreError
        \<notin> set (snd (on_PollResponse viewer3 CommitFault (Some (1, None, ''A'')) True room_abc_poll))"
proof -
  let ?p = "\<lparr>poll_id = 1, poll_roomId = 7,
              poll_values = [(''A'', JNum 0), (''B'', JNum 0), (''C'', JNum 0), (''D'', JNum 0), (''E'', JNum 0)],
              poll_created_at = 100, poll_ended_at = None\<rparr>"
  have f1: "find (\<lambda>p. poll_id p = 1) (Poll room_abc_poll) = Some ?p"
    by (simp add: room_abc_poll_eq)
  have f2: "find (\<lambda>p. poll_id p = 2) (Poll room_abc_poll) = None"
    by (simp add: room_abc_poll_eq)
  have v: "update_counts None ''A'' (poll_values ?p)
      = [(''A'', JNum 1), (''B'', JNum 0), (''C'', JNum 0), (''D'', JNum 0), (''E'', JNum 0)]"
    by (simp add: update_None_A)
  have n: "admin_nsp (roomName viewer3) = ''/rooms/abc/admin''"
    by (simp add: admin_nsp_def viewer3_def)
  have a: "snd (on_PollResponse viewer3 NoFault (Some (1, None, ''A'')) True room_abc_poll) =
     [NspEmit ''/rooms/abc/admin'' ''PollResults''
        (Tally [(''A'', JNum 1), (''B'', JNum 0), (''C'', JNum 0), (''D'', JNum 0), (''E'', JNum 0)]),
      Callback (Choice ''A''), TxCommit]"
    using PollResponse_effects[of viewer3 NoFault 1 None "''A''" room_abc_poll ?p,
        unfolded Let_def, THEN conjunct2, THEN conjunct2, THEN conjunct2, THEN conjunct2, THEN conjunct1]
      f1
    unfolding v n by simp
  have c: "received viewer3 (snd (on_PollResponse viewer3 NoFault (Some (1, None, ''A'')) True room_abc_poll))
        \<lparr>c_sock = 3, c_nsp = ''/rooms/abc''\<rparr> = []"
    using PollResponse_effects[of viewer3 NoFault 1 None "''A''" room_abc_poll ?p,
        unfolded Let_def, THEN conjunct2, THEN conjunct2, THEN conjunct2, THEN conjunct1,
        rule_format, of "\<lparr>c_sock = 3, c_nsp = ''/rooms/abc''\<rparr>"]
    unfolding n by simp
  have "fst (on_PollResponse viewer3 NoFault (Some (2, None, ''A'')) True room_abc_poll) = room_abc_poll
        \<and> (\<exists>e. snd (on_PollResponse viewer3 NoFault (Some (2, None, ''A'')) True room_abc_poll)
                 = [TxRollback, Callback (Failure e)])"
    using PollResponse_effects[of viewer3 NoFault 2 None "''A''" room_abc_poll ?p,
        unfolded Let_def, THEN conjunct2, THEN conjunct2, THEN conjunct2, THEN conjunct2,
        THEN conjunct2] f2
    by simp
  moreover have "snd (on_PollResponse viewer3 NoFault (Some (2, None, ''A'')) True room_abc_poll)
                 = [TxRollback, Callback (Failure TypeError)]"
    using f2 by (simp add: on_PollResponse_body_fails)
  ultimately have b: "on_PollResponse viewer3 NoFault (Some (2, None, ''A'')) True room_abc_poll
       = (room_abc_poll, [TxRollback, Callback (Failure TypeError)])"
    by (simp add: prod_eq_iff)
  have d: "Unhandled StoreError
        \<notin> set (snd (on_PollResponse viewer3 CommitFault (Some (1, None, ''A'')) True room_abc_poll))"
    using PollResponse_effects[of viewer3 CommitFault 1 None "''A''" room_abc_poll ?p,
        unfolded Let_def, THEN conjunct2, THEN conjunct2, THEN conjunct1, rule_format, of StoreError]
    by simp
  from a b c d show ?thesis by simp
qed

text \<open>
  C5 as stated fails: in a response that the store serves without fault the tally is
  emitted, and the new choice acknowledged, before the commit; when the commit fails
  both have happened although the store keeps the old tally; and a response that
  comes without payload throws at the destructuring, before the \<^verbatim>\<open>try\<close>.
\<close>

theorem PollResponse_emits_before_commit:
  "\<not> emits_after_commit (snd (on_PollResponse viewer3 NoFault (Some (1, None, ''A'')) True room_abc_poll))
   \<and> on_PollResponse viewer3 CommitFault (Some (1, None, ''A'')) True room_abc_poll =
      (room_abc_poll,
       [NspEmit ''/rooms/abc/admin'' ''PollResults''
          (Tally [(''A'', JNum 1), (''B'', JNum 0), (''C'', JNum 0), (''D'', JNum 0), (''E'', JNum 0)]),
        Callback (Choice ''A''), TxRollback, Callback (Failure StoreError)])
   \<and> on_PollResponse viewer3 NoFault None True room_abc_poll = (room_abc_poll, [Unhandled TypeError])"
proof -
  let ?p = "\<lparr>poll_id = 1, poll_roomId = 7,
              poll_values = [(''A'', JNum 0), (''B'', JNum 0), (''C'', JNum 0), (''D'', JNum 0), (''E'', JNum 0)],
              poll_created_at = 100, poll_ended_at = None\<rparr>"
  have f1: "find (\<lambda>p. poll_id p = 1) (Poll room_abc_poll) = Some ?p"
    by (simp add: room_abc_poll_eq)
  have v: "update_counts None ''A'' (poll_values ?p)
      = [(''A'', JNum 1), (''B'', JNum 0), (''C'', JNum 0), (''D'', JNum 0), (''E'', JNum 0)]"
    by (simp add: update_None_A)
  have n: "admin_nsp (roomName viewer3) = ''/rooms/abc/admin''"
    by (simp add: admin_nsp_def viewer3_def)
  show ?thesis
    unfolding on_PollResponse_commit[OF f1] on_PollResponse_commit_fault[OF f1] v n
    by (simp add: on_PollResponse_no_payload)
qed

section \<open>What a request does to the polls\<close>

lemma on_PollResponse_Poll:
  "fst (on_PollResponse s f (Some (pollId, prevChoice, newChoice)) True db) = db
   \<or> (\<exists>p. find (\<lambda>p. poll_id p = pollId) (Poll db) = Some p
          \<and> fst (on_PollResponse s f (Some (pollId, prevChoice, newChoice)) True db)
              = db\<lparr>Poll := map (\<lambda>q. if poll_id q = pollId
                         then q\<lparr>poll_values := json_tally (update_counts prevChoice newChoice (poll_values p))\<rparr>
                         else q) (Poll db)\<rparr>)"
  using on_PollResponse_cases[of f pollId db]
  by (auto simp: on_PollResponse_body_fails on_PollResponse_commit_fault on_PollResponse_commit)

lemma run_handler_Poll:
  "(Poll (fst (run_handler s e r db)) = Poll db \<and> Poll_seq (fst (run_handler s e r db)) = Poll_seq db)
   \<or> (r = PollLaunch
        \<and> Poll (fst (run_handler s e r db)) =
             Poll db @ [\<lparr>poll_id = Poll_seq db, poll_roomId = roomId s, poll_values = zero_tally,
                         poll_created_at = now e, poll_ended_at = None\<rparr>]
        \<and> Poll_seq (fst (run_handler s e r db)) = Suc (Poll_seq db))
   \<or> (\<exists>pollId. r = PollEnd pollId
        \<and> Poll (fst (run_handler s e r db)) =
             map (\<lambda>p. if poll_id p = pollId then p\<lparr>poll_ended_at := Some (now e)\<rparr> else p) (Poll db)
        \<and> Poll_seq (fst (run_handler s e r db)) = Poll_seq db)
   \<or> (\<exists>pollId prevChoice newChoice p. r = PollResponse pollId prevChoice newChoice
        \<and> find (\<lambda>p. poll_id p = pollId) (Poll db) = Some p
        \<and> Poll (fst (run_handler s e r db)) =
             map (\<lambda>q. if poll_id q = pollId
                       then q\<lparr>poll_values := json_tally (update_counts prevChoice newChoice (poll_values p))\<rparr>
                       else q) (Poll db)
        \<and> Poll_seq (fst (run_handler s e r db)) = Poll_seq db)"
proof (cases r)
  case PollLaunch
  then show ?thesis by (simp add: on_PollLaunch_def Let_def)
next
  case (PollReveal x)
  then show ?thesis by (simp add: on_PollReveal_def split: option.splits)
next
  case PollToggle
  then show ?thesis by (simp add: on_PollToggle_def)
next
  case (PollEnd x)
  then show ?thesis by (simp add: on_PollEnd_def)
next
  case (QuestionApprove x)
  then show ?thesis by (simp add: on_QuestionApprove_def Let_def split: list.splits)
next
  case QuestionClear
  then show ?thesis by (simp add: on_QuestionClear_def)
next
  case (PollResponse pollId prevChoice newChoice)
  from on_PollResponse_Poll[of s "fault e" pollId prevChoice newChoice db]
  show ?thesis
  proof
    assume "fst (on_PollResponse s (fault e) (Some (pollId, prevChoice, newChoice)) True db) = db"
    with PollResponse show ?thesis by simp
  next
    assume "\<exists>p. find (\<lambda>p. poll_id p = pollId) (Poll db) = Some p \<and>
        fst (on_PollResponse s (fault e) (Some (pollId, prevChoice, newChoice)) True db) =
        db\<lparr>Poll := map (\<lambda>q. if poll_id q = pollId
                         then q\<lparr>poll_values := json_tally (update_counts prevChoice newChoice (poll_values p))\<rparr>
                         else q) (Poll db)\<rparr>"
    then obtain p where "find (\<lambda>p. poll_id p = pollId) (Poll db) = Some p"
      and "fst (on_PollResponse s (fault e) (Some (pollId, prevChoice, newChoice)) True db) =
        db\<lparr>Poll := map (\<lambda>q. if poll_id q = pollId
                         then q\<lparr>poll_values := json_tally (update_counts prevChoice newChoice (poll_values p))\<rparr>
                         else q) (Poll db)\<rparr>"
      by blast
    with PollResponse show ?thesis by simp
  qed
next
  case (ReactionSend x)
  then show ?thesis by (simp add: on_ReactionSend_def split: option.splits)
next
  case (QuestionAsk x)
  then show ?thesis by (simp add: on_QuestionAsk_def Let_def)
next
  case (QuestionUpvote x)
  then show ?thesis by (simp add: on_QuestionUpvote_def Let_def split: list.splits)
qed

lemma handle_Poll:
  "(Poll (fst (handle s e r db)) = Poll db \<and> Poll_seq (fst (handle s e r db)) = Poll_seq db)
   \<or> (r = PollLaunch
        \<and> Poll (fst (handle s e r db)) =
             Poll db @ [\<lparr>poll_id = Poll_seq db, poll_roomId = roomId s, poll_values = zero_tally,
                         poll_created_at = now e, poll_ended_at = None\<rparr>]
        \<and> Poll_seq (fst (handle s e r db)) = Suc (Poll_seq db))
   \<or> (\<exists>pollId. r = PollEnd pollId
        \<and> Poll (fst (handle s e r db)) =
             map (\<lambda>p. if poll_id p = pollId then p\<lparr>poll_ended_at := Some (now e)\<rparr> else p) (Poll db)
        \<and> Poll_seq (fst (handle s e r db)) = Poll_seq db)
   \<or> (\<exists>pollId prevChoice newChoice p. r = PollResponse pollId prevChoice newChoice
        \<and> find (\<lambda>p. poll_id p = pollId) (Poll db) = Some p
        \<and> Poll (fst (handle s e r db)) =
             map (\<lambda>q. if poll_id q = pollId
                       then q\<lparr>poll_values := json_tally (update_counts prevChoice newChoice (poll_values p))\<rparr>
                       else q) (Poll db)
        \<and> Poll_seq (fst (handle s e r db)) = Poll_seq db)"
proof (cases "event_name r \<in> set (handlers s)")
  case True
  then have "handle s e r db = run_handler s e r db" by (simp add: handle_def)
  then show ?thesis using run_handler_Poll[of s e r db] by simp
next
  case False
  then show ?thesis by (simp add: handle_def)
qed


lemma complete_response_Poll:
  "fst (complete_response t db) = db
   \<or> fst (complete_response t db)
       = db\<lparr>Poll := map (\<lambda>q. if poll_id q = p_pollId t
                          then q\<lparr>poll_values := json_tally (update_counts (p_prevChoice t) (p_newChoice t)
                                                               (p_values t))\<rparr>
                          else q) (Poll db)\<rparr>"
  by (simp add: complete_response_def catch_callback_def knex_transaction_def response_rest_def Let_def)

lemma response_select_InrD:
  assumes "response_select f pollId db = Inr vals"
  shows "\<exists>p. find (\<lambda>p. poll_id p = pollId) (Poll db) = Some p \<and> vals = poll_values p"
  using assms by (auto simp: response_select_def split: if_splits option.splits)

text \<open>
  What the first part of a request leaves: the store after a whole handler and
  nothing pending, or the store as it was and at most the transaction of a response
  with the tally it read.
\<close>

lemma begin_step_cases:
  "begin_step db (s, e, r) = (fst (handle s e r db), [])
   \<or> begin_step db (s, e, r) = (db, [])
   \<or> (\<exists>pollId prevChoice newChoice vals.
         r = PollResponse pollId prevChoice newChoice
         \<and> response_select (fault e) pollId db = Inr vals
         \<and> begin_step db (s, e, r)
             = (db, [\<lparr>p_wait = overlap e, p_session = s, p_fault = fault e, p_pollId = pollId,
                      p_prevChoice = prevChoice, p_newChoice = newChoice, p_values = vals\<rparr>]))"
  by (cases r) (auto simp: begin_step_def split: sum.splits)

section \<open>The tallies along a run\<close>

lemma add_assign_num:
  assumes "map_of t l = Some (JNum n)"
  shows "map_of (add_assign t k a) l = Some (JNum (if k = l then double_add n a else n))"
  using assms map_of_add_assign_num[of t l n a] map_of_add_assign_other[of l k t a]
  by (cases "k = l") simp_all

lemma update_counts_value:
  assumes "map_of v l = Some (JNum n)"
  shows "map_of (json_tally (update_counts prevChoice newChoice v)) l =
           Some (JNum (if newChoice = l
                       then double_add (if prevChoice = Some l \<and> l \<noteq> [] then double_add n MinusOne else n)
                              PlusOne
                       else if prevChoice = Some l \<and> l \<noteq> [] then double_add n MinusOne else n))"
proof -
  let ?n1 = "if prevChoice = Some l \<and> l \<noteq> [] then double_add n MinusOne else n"
  let ?v1 = "case prevChoice of None \<Rightarrow> v
             | Some c \<Rightarrow> if js_truthy prevChoice then add_assign v c MinusOne else v"
  have "map_of ?v1 l = Some (JNum ?n1)"
    using assms by (cases prevChoice) (auto simp: add_assign_num js_truthy_def)
  from add_assign_num[OF this, of newChoice PlusOne]
  show ?thesis by (simp add: update_counts_def Let_def map_of_json_tally)
qed

lemma update_counts_num:
  assumes "map_of v l = Some (JNum n)"
  shows "\<exists>m. map_of (json_tally (update_counts prevChoice newChoice v)) l = Some (JNum m)"
  using update_counts_value[OF assms] by blast

lemma double_add_there_and_back:
  assumes "0 \<le> n"
  shows "0 \<le> double_add (double_add n MinusOne) PlusOne"
proof (cases "n = 0")
  case True
  then show ?thesis by (simp add: double_add_def)
next
  case False
  with assms have "0 \<le> n + addend_val MinusOne" by simp
  then have "0 \<le> double_add n MinusOne" by (rule double_add_nonneg)
  then have "0 \<le> double_add n MinusOne + addend_val PlusOne" by simp
  then show ?thesis by (rule double_add_nonneg)
qed

lemma update_counts_nonneg:
  assumes "map_of v l = Some (JNum n)" and "0 \<le> n"
    and "prevChoice = Some l \<longrightarrow> newChoice = l \<or> 1 \<le> n"
  shows "\<exists>m. 0 \<le> m \<and> map_of (json_tally (update_counts prevChoice newChoice v)) l = Some (JNum m)"
proof -
  have p: "0 \<le> double_add n PlusOne"
    using assms(2) by (intro double_add_nonneg) simp
  have m: "0 \<le> double_add n MinusOne" if "1 \<le> n"
    using that by (intro double_add_nonneg) simp
  have b: "0 \<le> double_add (double_add n MinusOne) PlusOne"
    using assms(2) by (rule double_add_there_and_back)
  show ?thesis
    unfolding update_counts_value[OF assms(1)]
    using assms(2,3) p m b by auto
qed

lemma count_int_iff: "count_int t l \<longleftrightarrow> (\<exists>n. map_of t l = Some (JNum n))"
proof (cases "map_of t l")
  case None
  then show ?thesis by (simp add: count_int_def)
next
  case (Some v)
  then show ?thesis by (cases v) (simp_all add: count_int_def)
qed

lemma count_ok_iff: "count_ok t l \<longleftrightarrow> (\<exists>n. 0 \<le> n \<and> map_of t l = Some (JNum n))"
proof (cases "map_of t l")
  case None
  then show ?thesis by (simp add: count_ok_def)
next
  case (Some v)
  then show ?thesis by (cases v) (simp_all add: count_ok_def)
qed

lemma count_int_update:
  assumes "count_int v l"
  shows "count_int (json_tally (update_counts prevChoice newChoice v)) l"
proof -
  from assms obtain n where "map_of v l = Some (JNum n)"
    by (auto simp: count_int_iff)
  from update_counts_num[OF this] show ?thesis by (simp add: count_int_iff)
qed

lemma count_int_zero: "l \<in> set choice_labels \<Longrightarrow> count_int zero_tally l"
  by (auto simp: count_int_iff zero_tally_def choice_labels_def)

lemma count_ok_zero: "l \<in> set choice_labels \<Longrightarrow> count_ok zero_tally l"
  by (auto simp: count_ok_iff zero_tally_def choice_labels_def)

text \<open>A property of the tallies of all polls holds on when one tally is replaced by one that has it.\<close>

lemma replace_values:
  assumes "list_all (\<lambda>p. P (poll_values p)) ps" and "P v"
  shows "list_all (\<lambda>p. P (poll_values p))
           (map (\<lambda>q. if poll_id q = i then q\<lparr>poll_values := v\<rparr> else q) ps)"
  using assms by (induction ps) auto

lemma end_values:
  assumes "list_all (\<lambda>p. P (poll_values p)) ps"
  shows "list_all (\<lambda>p. P (poll_values p))
           (map (\<lambda>p. if poll_id p = i then p\<lparr>poll_ended_at := t\<rparr> else p) ps)"
  using assms by (induction ps) auto

lemma find_values:
  assumes "list_all (\<lambda>p. P (poll_values p)) ps" and "find Q ps = Some p"
  shows "P (poll_values p)"
  using assms by (auto simp: find_Some_iff list_all_length)

lemma tallies_step:
  assumes inv: "list_all (\<lambda>p. P (poll_values p)) (Poll db)"
    and zero: "P zero_tally"
    and upd: "\<And>pollId prevChoice newChoice p.
                r = PollResponse pollId prevChoice newChoice
                \<Longrightarrow> find (\<lambda>p. poll_id p = pollId) (Poll db) = Some p
                \<Longrightarrow> P (json_tally (update_counts prevChoice newChoice (poll_values p)))"
  shows "list_all (\<lambda>p. P (poll_values p)) (Poll (fst (handle s e r db)))"
  using handle_Poll[of s e r db]
proof (elim disjE conjE exE)
  assume "Poll (fst (handle s e r db)) = Poll db"
  with inv show ?thesis by simp
next
  assume "Poll (fst (handle s e r db)) =
           Poll db @ [\<lparr>poll_id = Poll_seq db, poll_roomId = roomId s, poll_values = zero_tally,
                       poll_created_at = now e, poll_ended_at = None\<rparr>]"
  with inv zero show ?thesis by simp
next
  fix pollId
  assume "Poll (fst (handle s e r db)) =
           map (\<lambda>p. if poll_id p = pollId then p\<lparr>poll_ended_at := Some (now e)\<rparr> else p) (Poll db)"
  with end_values[OF inv] show ?thesis by simp
next
  fix pollId prevChoice newChoice p
  assume r: "r = PollResponse pollId prevChoice newChoice"
    and f: "find (\<lambda>p. poll_id p = pollId) (Poll db) = Some p"
    and P: "Poll (fst (handle s e r db)) =
           map (\<lambda>q. if poll_id q = pollId
                     then q\<lparr>poll_values := json_tally (update_counts prevChoice newChoice (poll_values p))\<rparr>
                     else q) (Poll db)"
  from upd[OF r f] replace_values[OF inv] show ?thesis unfolding P by simp
qed

lemma tallies_complete:
  assumes inv: "list_all (\<lambda>p. P (poll_values p)) (Poll db)"
    and t: "P (json_tally (update_counts (p_prevChoice t) (p_newChoice t) (p_values t)))"
  shows "list_all (\<lambda>p. P (poll_values p)) (Poll (fst (complete_response t db)))"
  using complete_response_Poll[of t db]
proof
  assume "fst (complete_response t db) = db"
  with inv show ?thesis by simp
next
  assume "fst (complete_response t db)
       = db\<lparr>Poll := map (\<lambda>q. if poll_id q = p_pollId t
                          then q\<lparr>poll_values := json_tally (update_counts (p_prevChoice t) (p_newChoice t)
                                                               (p_values t))\<rparr>
                          else q) (Poll db)\<rparr>"
  with replace_values[OF inv t] show ?thesis by simp
qed

subsection \<open>Invariants of runs\<close>

text \<open>
  A property \<open>I\<close> of the store holds along a run when every handler keeps it, every
  transaction that has read its tally has a property \<open>Q\<close>, and the rest of a
  transaction with \<open>Q\<close> keeps \<open>I\<close>.
\<close>

lemma tick_inv:
  assumes wait: "\<And>t w. Q t \<Longrightarrow> Q (t\<lparr>p_wait := w\<rparr>)"
    and comp: "\<And>db t. I db \<Longrightarrow> Q t \<Longrightarrow> I (fst (complete_response t db))"
  shows "I db \<Longrightarrow> list_all Q ts \<Longrightarrow> I (fst (tick db ts)) \<and> list_all Q (snd (tick db ts))"
proof (induction ts arbitrary: db)
  case Nil
  then show ?case by simp
next
  case (Cons t ts)
  from Cons.prems have q: "Q t" and qs: "list_all Q ts" by simp_all
  show ?case
  proof (cases "p_wait t \<le> 1")
    case True
    from comp[OF Cons.prems(1) q] have "I (fst (complete_response t db))" .
    from Cons.IH[OF this qs] True show ?thesis by simp
  next
    case False
    from Cons.IH[OF Cons.prems(1) qs] wait[OF q] False show ?thesis
      by (simp add: split_beta)
  qed
qed

lemma flush_inv:
  assumes comp: "\<And>db t. I db \<Longrightarrow> Q t \<Longrightarrow> I (fst (complete_response t db))"
  shows "I db \<Longrightarrow> list_all Q ts \<Longrightarrow> I (flush db ts)"
proof (induction ts arbitrary: db)
  case Nil
  then show ?case by simp
next
  case (Cons t ts)
  from Cons.prems have q: "Q t" and qs: "list_all Q ts" by simp_all
  from comp[OF Cons.prems(1) q] have "I (fst (complete_response t db))" .
  from Cons.IH[OF this qs] show ?case by simp
qed

lemma run_pending_inv:
  assumes step: "\<And>s e r db. I db \<Longrightarrow> I (fst (handle s e r db))"
    and sel: "\<And>db f pollId vals s prevChoice newChoice w.
                I db \<Longrightarrow> response_select f pollId db = Inr vals
                \<Longrightarrow> Q \<lparr>p_wait = w, p_session = s, p_fault = f, p_pollId = pollId,
                       p_prevChoice = prevChoice, p_newChoice = newChoice, p_values = vals\<rparr>"
    and wait: "\<And>t w. Q t \<Longrightarrow> Q (t\<lparr>p_wait := w\<rparr>)"
    and comp: "\<And>db t. I db \<Longrightarrow> Q t \<Longrightarrow> I (fst (complete_response t db))"
  shows "I db \<Longrightarrow> list_all Q ts \<Longrightarrow> I (run_pending db ts steps)"
proof (induction steps arbitrary: db ts)
  case Nil
  from flush_inv[of I Q, OF comp Nil.prems] show ?case by simp
next
  case (Cons x steps)
  obtain s e r where x: "x = (s, e, r)" by (cases x)
  have b: "I (fst (begin_step db x)) \<and> list_all Q (snd (begin_step db x))"
    using begin_step_cases[of db s e r] step[OF Cons.prems(1), of s e r] sel[OF Cons.prems(1)]
      Cons.prems(1)
    unfolding x by (elim disjE exE conjE) simp_all
  from tick_inv[of Q I, OF wait comp conjunct1[OF b] Cons.prems(2)]
  have t: "I (fst (tick (fst (begin_step db x)) ts))"
    "list_all Q (snd (tick (fst (begin_step db x)) ts))" by simp_all
  from t(2) b have "list_all Q (snd (tick (fst (begin_step db x)) ts) @ snd (begin_step db x))"
    by simp
  from Cons.IH[OF t(1) this] show ?case by (simp add: split_beta)
qed

lemma run_inv:
  assumes "\<And>s e r db. I db \<Longrightarrow> I (fst (handle s e r db))"
    and "\<And>db t. I db \<Longrightarrow> I (fst (complete_response t db))"
    and "I db"
  shows "I (run db steps)"
  unfolding run_def
  by (rule run_pending_inv[where I = I and Q = "\<lambda>t. True"]) (simp_all add: assms)

text \<open>A request that no response overlaps is served whole.\<close>

lemma begin_step_whole:
  assumes "overlap e = 0"
  shows "begin_step db (s, e, r) = (fst (handle s e r db), [])"
  using assms by (cases r) (simp_all add: begin_step_def)

lemma run_pending_whole:
  assumes "overlap e = 0"
  shows "run_pending db [] ((s, e, r) # steps) = run_pending (fst (handle s e r db)) [] steps"
  using assms by (simp add: begin_step_whole)

lemma guarded_pending_whole:
  assumes "overlap e = 0"
  shows "guarded_pending db [] ((s, e, r) # steps)
         \<longleftrightarrow> response_guard db r \<and> guarded_pending (fst (handle s e r db)) [] steps"
  using assms by (simp add: begin_step_whole)

lemma overlap_env0: "overlap env0 = 0"
  by (simp add: env0_def)

subsection \<open>The counts\<close>

lemma polls_int_run: "polls_int db \<Longrightarrow> polls_int (run db steps)"
proof -
  let ?P = "\<lambda>v. list_all (count_int v) choice_labels"
  let ?I = "\<lambda>db. list_all (\<lambda>p. ?P (poll_values p)) (Poll db)"
  let ?Q = "\<lambda>t. ?P (p_values t)"
  have zero: "?P zero_tally" by (simp add: list_all_iff count_int_zero)
  have upd: "?P (json_tally (update_counts prevChoice newChoice v))" if "?P v"
    for prevChoice newChoice v
    using that by (simp add: list_all_iff count_int_update)
  have step: "?I (fst (handle s e r db))" if "?I db" for s e r db
  proof (rule tallies_step[of ?P, OF that zero])
    fix pollId prevChoice newChoice p
    assume "find (\<lambda>p. poll_id p = pollId) (Poll db) = Some p"
    from find_values[of ?P, OF that this] show "?P (json_tally (update_counts prevChoice newChoice (poll_values p)))"
      by (rule upd)
  qed
  have sel: "?Q \<lparr>p_wait = w, p_session = s, p_fault = f, p_pollId = pollId,
                 p_prevChoice = prevChoice, p_newChoice = newChoice, p_values = vals\<rparr>"
    if "?I db" "response_select f pollId db = Inr vals" for db f pollId vals s prevChoice newChoice w
  proof -
    from response_select_InrD[OF that(2)] obtain p
      where "find (\<lambda>p. poll_id p = pollId) (Poll db) = Some p" "vals = poll_values p" by blast
    with find_values[of ?P, OF that(1)] show ?thesis by simp
  qed
  have comp: "?I (fst (complete_response t db))" if "?I db" "?Q t" for db t
    using tallies_complete[of ?P, OF that(1) upd[OF that(2)]] .
  assume "polls_int db"
  then have i: "?I db" by (simp add: polls_int_def)
  have "?I (run_pending db [] steps)"
    by (rule run_pending_inv[where I = ?I and Q = ?Q, OF step sel _ comp i]) simp_all
  then show ?thesis by (simp add: polls_int_def run_def)
qed

lemma polls_ok_run_pending:
  "polls_ok db
   \<Longrightarrow> list_all (\<lambda>t. list_all (count_ok (json_tally (update_counts (p_prevChoice t) (p_newChoice t)
                                                          (p_values t)))) choice_labels) ts
   \<Longrightarrow> guarded_pending db ts steps
   \<Longrightarrow> polls_ok (run_pending db ts steps)"
proof (induction steps arbitrary: db ts)
  let ?P = "\<lambda>v. list_all (count_ok v) choice_labels"
  let ?I = "\<lambda>db. list_all (\<lambda>p. ?P (poll_values p)) (Poll db)"
  let ?Q = "\<lambda>t. ?P (json_tally (update_counts (p_prevChoice t) (p_newChoice t) (p_values t)))"
  have I: "?I db = polls_ok db" for db by (simp add: polls_ok_def)
  have comp: "polls_ok (fst (complete_response t db))" if "polls_ok db" "?Q t" for db t
    using tallies_complete[of ?P, OF that(1)[folded I] that(2)] by (simp add: I)
  have wait: "?Q (t\<lparr>p_wait := w\<rparr>)" if "?Q t" for t w using that by simp
  {
    case Nil
    from flush_inv[of polls_ok ?Q, OF comp Nil.prems(1,2)] show ?case by simp
  next
    case (Cons x steps)
    obtain s e r where x: "x = (s, e, r)" by (cases x)
    from Cons.prems(3) have g: "response_guard db r" by (simp add: x)
    have zero: "?P zero_tally" by (simp add: list_all_iff count_ok_zero)
    have upd: "?P (json_tally (update_counts prevChoice newChoice (poll_values p)))"
      if r: "r = PollResponse pollId prevChoice newChoice"
        and f: "find (\<lambda>p. poll_id p = pollId) (Poll db) = Some p"
      for pollId prevChoice newChoice p
    proof -
      from find_values[of ?P, OF Cons.prems(1)[folded I] f]
      have okp: "\<forall>l\<in>set choice_labels. count_ok (poll_values p) l" by (simp add: list_all_iff)
      have "count_ok (json_tally (update_counts prevChoice newChoice (poll_values p))) l"
        if l: "l \<in> set choice_labels" for l
      proof -
        from okp l obtain n where n: "map_of (poll_values p) l = Some (JNum n)" "0 \<le> n"
          by (auto simp: count_ok_iff)
        have "prevChoice = Some l \<longrightarrow> newChoice = l \<or> 1 \<le> n"
          using g r f l n by (auto simp: response_guard_def)
        from update_counts_nonneg[OF n this] show ?thesis by (simp add: count_ok_iff)
      qed
      then show ?thesis by (simp add: list_all_iff)
    qed
    have step: "polls_ok (fst (handle s e r db))"
      using tallies_step[of ?P, OF Cons.prems(1)[folded I] zero upd] by (simp add: I)
    have b: "polls_ok (fst (begin_step db x)) \<and> list_all ?Q (snd (begin_step db x))"
      using begin_step_cases[of db s e r]
    proof (elim disjE exE conjE)
      assume "begin_step db (s, e, r) = (fst (handle s e r db), [])"
      with step show ?thesis by (simp add: x)
    next
      assume "begin_step db (s, e, r) = (db, [])"
      with Cons.prems(1) show ?thesis by (simp add: x)
    next
      fix pollId prevChoice newChoice vals
      assume r: "r = PollResponse pollId prevChoice newChoice"
        and sl: "response_select (fault e) pollId db = Inr vals"
        and bs: "begin_step db (s, e, r)
             = (db, [\<lparr>p_wait = overlap e, p_session = s, p_fault = fault e, p_pollId = pollId,
                      p_prevChoice = prevChoice, p_newChoice = newChoice, p_values = vals\<rparr>])"
      from response_select_InrD[OF sl] obtain p
        where p: "find (\<lambda>p. poll_id p = pollId) (Poll db) = Some p" "vals = poll_values p" by blast
      from upd[OF r p(1)] Cons.prems(1) show ?thesis unfolding x bs p(2) by simp
    qed
    from tick_inv[of ?Q polls_ok, OF wait comp conjunct1[OF b] Cons.prems(2)]
    have t: "polls_ok (fst (tick (fst (begin_step db x)) ts))"
      "list_all ?Q (snd (tick (fst (begin_step db x)) ts))" by simp_all
    from t(2) b have q: "list_all ?Q (snd (tick (fst (begin_step db x)) ts) @ snd (begin_step db x))"
      by simp
    from Cons.prems(3)
    have "guarded_pending (fst (tick (fst (begin_step db x)) ts))
            (snd (tick (fst (begin_step db x)) ts) @ snd (begin_step db x)) steps"
      by (simp add: split_beta)
    from Cons.IH[OF t(1) q this] show ?case by (simp add: split_beta)
  }
qed

lemma polls_ok_run: "polls_ok db \<Longrightarrow> guarded db steps \<Longrightarrow> polls_ok (run db steps)"
  unfolding run_def guarded_def using polls_ok_run_pending[of db "[]" steps] by simp

text \<open>
  C2 (amended): \<^verbatim>\<open>PollLaunch\<close> appends a poll whose tally has the five labels, each
  zero. Along every run each poll keeps the five labels, each with an integer count:
  no request removes a label. The counts stay non-negative along the runs in which a
  response that names one of the five labels as its previous choice, and another
  label as its new choice, finds the count of that previous choice at least one.
\<close>

theorem tally_invariant:
  "Poll (fst (on_PollLaunch s t db)) =
     Poll db @ [\<lparr>poll_id = Poll_seq db, poll_roomId = roomId s,
                 poll_values = [(''A'', JNum 0), (''B'', JNum 0), (''C'', JNum 0), (''D'', JNum 0),
                                (''E'', JNum 0)],
                 poll_created_at = t, poll_ended_at = None\<rparr>]
   \<and> (polls_int db \<longrightarrow> polls_int (run db steps))
   \<and> (polls_ok db \<and> guarded db steps \<longrightarrow> polls_ok (run db steps))"
  using polls_int_run[of db steps] polls_ok_run[of db steps]
  by (simp add: on_PollLaunch_def Let_def zero_tally_def choice_labels_def)

lemma room_abc_negative:
  "fst (handle viewer3 env0 (PollResponse 1 (Some ''A'') ''B'') room_abc_poll) =
     \<lparr>Room = [\<lparr>room_id = 7, visibleId = ''abc''\<rparr>, \<lparr>room_id = 8, visibleId = ''xyz''\<rparr>],
      Poll = [\<lparr>poll_id = 1, poll_roomId = 7,
               poll_values = [(''A'', JNum (- 1)), (''B'', JNum 1), (''C'', JNum 0), (''D'', JNum 0), (''E'', JNum 0)],
               poll_created_at = 100, poll_ended_at = None\<rparr>],
      Question = [], Poll_seq = 2, Question_seq = 1\<rparr>"
proof -
  have f: "find (\<lambda>p. poll_id p = 1) (Poll room_abc_poll) = Some (hd (Poll room_abc_poll))"
    by (simp add: room_abc_poll_eq)
  have e: "fault env0 = NoFault" by (simp add: env0_def)
  show ?thesis
    unfolding handle_viewer_response e on_PollResponse_commit[OF f]
    by (simp add: room_abc_poll_eq update_counts_def add_assign_def double_add_def json_tally_def
        js_truthy_def)
qed

theorem tally_invariant_witness:
  "polls_ok (run room_abc [(admin1, env0, PollLaunch), (viewer3, env0, PollResponse 1 None ''A''),
                           (viewer3, env0, PollResponse 1 (Some ''A'') ''B'')])"
proof -
  let ?steps = "[(admin1, env0, PollLaunch), (viewer3, env0, PollResponse 1 None ''A''),
                 (viewer3, env0, PollResponse 1 (Some ''A'') ''B'')]"
  have o: "polls_ok room_abc" by (simp add: polls_ok_def room_abc_def)
  have g1: "response_guard room_abc PollLaunch" by (simp add: response_guard_def)
  have g2: "response_guard room_abc_poll (PollResponse 1 None ''A'')" by (simp add: response_guard_def)
  have g3: "response_guard (fst (handle viewer3 env0 (PollResponse 1 None ''A'') room_abc_poll))
              (PollResponse 1 (Some ''A'') ''B'')"
    unfolding room_abc_A by (simp add: response_guard_def)
  have g: "guarded room_abc ?steps"
    using g1 g2 g3
    by (simp only: guarded_def guarded_pending_whole[OF overlap_env0] room_abc_poll_def[symmetric]
        guarded_pending.simps(1) simp_thms)
  from tally_invariant[of admin1 0 room_abc ?steps] o g show ?thesis by blast
qed

text \<open>
  C2 as stated fails: on a poll just launched, a response with the previous choice
  \<^verbatim>\<open>A\<close> and the new choice \<^verbatim>\<open>B\<close> leaves the count of \<^verbatim>\<open>A\<close> at -1.
\<close>

theorem tally_goes_negative:
  "\<not> polls_ok (run room_abc [(admin1, env0, PollLaunch),
                              (viewer3, env0, PollResponse 1 (Some ''A'') ''B'')])
   \<and> map_of (poll_values (hd (Poll (run room_abc [(admin1, env0, PollLaunch),
                              (viewer3, env0, PollResponse 1 (Some ''A'') ''B'')])))) ''A''
      = Some (JNum (- 1))"
proof -
  have r: "run room_abc [(admin1, env0, PollLaunch), (viewer3, env0, PollResponse 1 (Some ''A'') ''B'')]
      = fst (handle viewer3 env0 (PollResponse 1 (Some ''A'') ''B'') room_abc_poll)"
    by (simp only: run_def run_pending_whole[OF overlap_env0] room_abc_poll_def[symmetric]
        run_pending.simps(1) flush.simps)
  show ?thesis unfolding r room_abc_negative
    by (simp add: polls_ok_def choice_labels_def count_ok_def)
qed

section \<open>Identities\<close>

lemma poll_ids_fresh_step:
  assumes "poll_ids_fresh db"
  shows "poll_ids_fresh (fst (handle s e r db))"
proof -
  have inv: "\<forall>p\<in>set (Poll db). poll_id p < Poll_seq db"
    using assms by (simp add: poll_ids_fresh_def list_all_iff)
  have "\<forall>p\<in>set (Poll (fst (handle s e r db))). poll_id p < Poll_seq (fst (handle s e r db))"
    using handle_Poll[of s e r db] inv
    by (elim disjE conjE exE) (auto simp: less_Suc_eq)
  then show ?thesis by (simp add: poll_ids_fresh_def list_all_iff)
qed

lemma poll_ids_fresh_complete:
  assumes "poll_ids_fresh db"
  shows "poll_ids_fresh (fst (complete_response t db))"
proof -
  have inv: "\<forall>p\<in>set (Poll db). poll_id p < Poll_seq db"
    using assms by (simp add: poll_ids_fresh_def list_all_iff)
  have "\<forall>p\<in>set (Poll (fst (complete_response t db))). poll_id p < Poll_seq (fst (complete_response t db))"
    using complete_response_Poll[of t db] inv by (elim disjE) auto
  then show ?thesis by (simp add: poll_ids_fresh_def list_all_iff)
qed

lemma poll_ids_fresh_run: "poll_ids_fresh db \<Longrightarrow> poll_ids_fresh (run db steps)"
  by (rule run_inv[where I = poll_ids_fresh]) (simp_all add: poll_ids_fresh_step poll_ids_fresh_complete)

lemma poll_ids_fresh_room_abc: "poll_ids_fresh room_abc"
  by (simp add: poll_ids_fresh_def room_abc_def)

lemma ids_map:
  assumes "\<And>x. q_id (f x) = q_id x"
  shows "map q_id (map f xs) = map q_id xs"
  using assms by (induction xs) auto

lemma question_ids_fresh_step:
  assumes "question_ids_fresh db"
  shows "question_ids_fresh (fst (handle s e r db))"
proof -
  from assms have d: "distinct (map q_id (Question db))"
    by (simp add: question_ids_fresh_def)
  have a: "map q_id (map (\<lambda>x. if q_id x = i then x\<lparr>q_approved := True\<rparr> else x) (Question db))
           = map q_id (Question db)" for i
    by (rule ids_map) simp
  have u: "map q_id (map (\<lambda>x. if q_id x = i then x\<lparr>q_votes := q_votes x + 1\<rparr> else x) (Question db))
           = map q_id (Question db)" for i
    by (rule ids_map) simp
  have "question_ids_fresh (fst (run_handler s e r db))"
  proof (cases r)
    case PollLaunch
    with assms show ?thesis by (simp add: on_PollLaunch_def Let_def question_ids_fresh_def)
  next
    case (PollReveal x)
    with assms show ?thesis by (simp add: on_PollReveal_def split: option.splits)
  next
    case PollToggle
    with assms show ?thesis by (simp add: on_PollToggle_def)
  next
    case (PollEnd x)
    with assms show ?thesis by (simp add: on_PollEnd_def question_ids_fresh_def)
  next
    case (QuestionApprove i)
    have "Question (fst (on_QuestionApprove s i db))
            = map (\<lambda>x. if q_id x = i then x\<lparr>q_approved := True\<rparr> else x) (Question db)"
      by (simp add: on_QuestionApprove_def Let_def split: list.splits)
    with QuestionApprove a[of i] d show ?thesis
      by (simp only: question_ids_fresh_def run_handler.simps)
  next
    case QuestionClear
    with d show ?thesis
      by (simp add: on_QuestionClear_def question_ids_fresh_def distinct_map_filter)
  next
    case (PollResponse pollId prevChoice newChoice)
    from on_PollResponse_Poll[of s "fault e" pollId prevChoice newChoice db]
    have "Question (fst (on_PollResponse s (fault e) (Some (pollId, prevChoice, newChoice)) True db))
            = Question db"
      by auto
    with PollResponse assms show ?thesis by (simp add: question_ids_fresh_def)
  next
    case (ReactionSend x)
    with assms show ?thesis by (simp add: on_ReactionSend_def split: option.splits)
  next
    case (QuestionAsk x)
    with d show ?thesis
      by (simp add: on_QuestionAsk_def Let_def question_ids_fresh_def)
  next
    case (QuestionUpvote i)
    have "Question (fst (on_QuestionUpvote s i db))
            = map (\<lambda>x. if q_id x = i then x\<lparr>q_votes := q_votes x + 1\<rparr> else x) (Question db)"
      by (simp add: on_QuestionUpvote_def Let_def split: list.splits)
    with QuestionUpvote u[of i] d show ?thesis
      by (simp only: question_ids_fresh_def run_handler.simps)
  qed
  with assms show ?thesis by (simp add: handle_def)
qed

lemma question_ids_fresh_complete:
  assumes "question_ids_fresh db"
  shows "question_ids_fresh (fst (complete_response t db))"
  using complete_response_Poll[of t db] assms
  by (elim disjE) (simp_all add: question_ids_fresh_def)

lemma question_ids_fresh_run: "question_ids_fresh db \<Longrightarrow> question_ids_fresh (run db steps)"
  by (rule run_inv[where I = question_ids_fresh])
     (simp_all add: question_ids_fresh_step question_ids_fresh_complete)

lemma question_ids_fresh_room_abc: "question_ids_fresh room_abc"
  by (simp add: question_ids_fresh_def room_abc_def)

section \<open>Ended polls and the replay\<close>

lemma orderBy_hd:
  assumes "orderBy_created_at_desc ps = p # rest"
  shows "p \<in> set ps \<and> (\<forall>q\<in>set ps. poll_created_at q \<le> poll_created_at p)"
proof -
  from assms have s: "sort_key poll_created_at ps = rev rest @ [p]"
    by (simp add: orderBy_created_at_desc_def rev_eq_Cons_iff)
  have "set (sort_key poll_created_at ps) = set ps" by simp
  with s have m: "set ps = insert p (set rest)" by auto
  have "sorted (map poll_created_at (sort_key poll_created_at ps))" by (rule sorted_sort_key)
  with s have "\<forall>q\<in>set rest. poll_created_at q \<le> poll_created_at p"
    by (auto simp: sorted_append)
  with m show ?thesis by auto
qed

lemma orderBy_Nil: "orderBy_created_at_desc ps = [] \<longleftrightarrow> ps = []"
proof -
  have "length (orderBy_created_at_desc ps) = length ps"
    by (simp add: orderBy_created_at_desc_def)
  then show ?thesis by (metis length_0_conv)
qed

lemma poll_replay_none:
  assumes "\<forall>q\<in>set (Poll d). poll_roomId q \<noteq> rid"
  shows "poll_replay d rid = []"
proof -
  from assms have "filter (\<lambda>p. poll_roomId p = rid) (Poll d) = []"
    by (simp add: filter_empty_conv)
  then show ?thesis by (simp add: poll_replay_def orderBy_created_at_desc_def)
qed

lemma poll_replay_latest:
  assumes q: "q \<in> set (Poll d)" "poll_roomId q = rid"
    and mx: "\<forall>q'\<in>set (Poll d). poll_roomId q' = rid \<longrightarrow> poll_created_at q' \<le> poll_created_at q"
    and di: "distinct (map poll_created_at (filter (\<lambda>p. poll_roomId p = rid) (Poll d)))"
  shows "poll_replay d rid =
           (if poll_ended_at q = None then [SockEmitLater ''PollStart'' (PollRef (poll_id q))] else [])"
proof -
  let ?ps = "filter (\<lambda>p. poll_roomId p = rid) (Poll d)"
  from q have qin: "q \<in> set ?ps" by simp
  then have "?ps \<noteq> []" by (metis empty_iff empty_set)
  then have "orderBy_created_at_desc ?ps \<noteq> []" by (simp only: orderBy_Nil not_False_eq_True)
  then obtain h rest where o: "orderBy_created_at_desc ?ps = h # rest"
    by (cases "orderBy_created_at_desc ?ps") auto
  from orderBy_hd[OF o] have h: "h \<in> set ?ps" "\<forall>x\<in>set ?ps. poll_created_at x \<le> poll_created_at h"
    by auto
  from h(1) mx have "poll_created_at h \<le> poll_created_at q" by simp
  moreover from h(2) qin have "poll_created_at q \<le> poll_created_at h" by blast
  ultimately have "poll_created_at h = poll_created_at q" by simp
  moreover from di have "inj_on poll_created_at (set ?ps)" by (simp add: distinct_map)
  ultimately have "h = q" using h(1) qin by (auto dest: inj_onD)
  with o show ?thesis by (simp add: poll_replay_def)
qed

lemma poll_replay_emits:
  assumes "e \<in> set (poll_replay d rid)"
  shows "\<exists>p\<in>set (Poll d). poll_ended_at p = None \<and> e = SockEmitLater ''PollStart'' (PollRef (poll_id p))"
proof -
  let ?ps = "filter (\<lambda>p. poll_roomId p = rid) (Poll d)"
  from assms obtain h rest where o: "orderBy_created_at_desc ?ps = h # rest"
    by (cases "orderBy_created_at_desc ?ps") (auto simp: poll_replay_def)
  from orderBy_hd[OF o] have "h \<in> set (Poll d)" by auto
  with assms o show ?thesis by (auto simp: poll_replay_def split: if_splits)
qed

lemma connection_PollStart:
  assumes "SockEmitLater ''PollStart'' x \<in> set (fst (connection d sid name))"
  shows "\<exists>p\<in>set (Poll d). poll_ended_at p = None \<and> x = PollRef (poll_id p)"
proof -
  obtain effs so where c: "connection d sid name = (effs, so)" by (cases "connection d sid name")
  show ?thesis
  proof (cases so)
    case None
    with c assms show ?thesis
      by (auto simp: connection_def split: option.splits prod.splits)
  next
    case (Some s)
    from connection_SomeD[OF c[unfolded Some]]
    have "effs = poll_replay d (roomId s) @ question_replay d (roomId s) (admin s)" by blast
    with assms c have "SockEmitLater ''PollStart'' x \<in> set (poll_replay d (roomId s))"
      by (auto simp: question_replay_def split: if_splits)
    from poll_replay_emits[OF this] show ?thesis by auto
  qed
qed


lemma ended_step:
  assumes "\<forall>p\<in>set (Poll db). poll_id p = pid \<longrightarrow> poll_ended_at p \<noteq> None" and "pid < Poll_seq db"
  shows "(\<forall>p\<in>set (Poll (fst (handle s e r db))). poll_id p = pid \<longrightarrow> poll_ended_at p \<noteq> None)
         \<and> pid < Poll_seq (fst (handle s e r db))"
  using handle_Poll[of s e r db] assms
  by (elim disjE conjE exE) auto

lemma ended_complete:
  assumes "\<forall>p\<in>set (Poll db). poll_id p = pid \<longrightarrow> poll_ended_at p \<noteq> None" and "pid < Poll_seq db"
  shows "(\<forall>p\<in>set (Poll (fst (complete_response t db))). poll_id p = pid \<longrightarrow> poll_ended_at p \<noteq> None)
         \<and> pid < Poll_seq (fst (complete_response t db))"
  using complete_response_Poll[of t db] assms
  by (elim disjE) auto

lemma ended_run:
  assumes "\<forall>p\<in>set (Poll db). poll_id p = pid \<longrightarrow> poll_ended_at p \<noteq> None" and "pid < Poll_seq db"
  shows "\<forall>p\<in>set (Poll (run db steps)). poll_id p = pid \<longrightarrow> poll_ended_at p \<noteq> None"
proof -
  let ?I = "\<lambda>db. (\<forall>p\<in>set (Poll db). poll_id p = pid \<longrightarrow> poll_ended_at p \<noteq> None) \<and> pid < Poll_seq db"
  have "?I (run db steps)"
  proof (rule run_inv[where I = ?I])
    show "?I (fst (handle s e r db))" if "?I db" for s e r db
      using ended_step[of db pid s e r] that by blast
    show "?I (fst (complete_response t db))" if "?I db" for db t
      using ended_complete[of db pid t] that by blast
    show "?I db" using assms by blast
  qed
  then show ?thesis by blast
qed

lemma PollEnd_member:
  assumes "p \<in> set (Poll db)" and "poll_id p = pollId"
  shows "p\<lparr>poll_ended_at := Some t\<rparr> \<in> set (Poll (fst (on_PollEnd s t pollId db)))"
proof -
  have "p\<lparr>poll_ended_at := Some t\<rparr> = (\<lambda>q. if poll_id q = pollId then q\<lparr>poll_ended_at := Some t\<rparr> else q) p"
    using assms(2) by simp
  also have "\<dots> \<in> (\<lambda>q. if poll_id q = pollId then q\<lparr>poll_ended_at := Some t\<rparr> else q) ` set (Poll db)"
    using assms(1) by (rule imageI)
  finally show ?thesis by (simp add: on_PollEnd_def)
qed

lemma PollEnd_ended:
  "\<forall>q\<in>set (Poll (fst (on_PollEnd s t pollId db))). poll_id q = pollId \<longrightarrow> poll_ended_at q = Some t"
proof (intro ballI impI)
  fix q
  assume "q \<in> set (Poll (fst (on_PollEnd s t pollId db)))" and i: "poll_id q = pollId"
  then have "q \<in> (\<lambda>p. if poll_id p = pollId then p\<lparr>poll_ended_at := Some t\<rparr> else p) ` set (Poll db)"
    by (simp add: on_PollEnd_def)
  then obtain q0 where q0: "q = (if poll_id q0 = pollId then q0\<lparr>poll_ended_at := Some t\<rparr> else q0)"
    by (rule imageE)
  show "poll_ended_at q = Some t"
  proof (cases "poll_id q0 = pollId")
    case True
    with q0 show ?thesis by simp
  next
    case False
    with q0 i show ?thesis by simp
  qed
qed

lemma PollEnd_fresh:
  assumes "poll_ids_fresh db" and "p \<in> set (Poll db)" and "poll_id p = pollId"
  shows "pollId < Poll_seq (fst (on_PollEnd s t pollId db))"
  using assms by (auto simp: on_PollEnd_def poll_ids_fresh_def list_all_iff)


text \<open>
  \<^verbatim>\<open>PollEnd\<close> on a poll of the store sets its end timestamp, emits \<^verbatim>\<open>PollEnd\<close> to the
  viewers' namespace of the room and calls the callback with \<^verbatim>\<open>true\<close>. From then on,
  whatever requests follow, the listener sends no \<^verbatim>\<open>PollStart\<close> for that poll.
\<close>

lemma PollEnd_ends:
  assumes "poll_ids_fresh db" and "p \<in> set (Poll db)" and "poll_id p = pollId"
  shows "snd (on_PollEnd s t pollId db) =
           [NspEmit (viewer_nsp (roomName s)) ''PollEnd'' NoPayload, Callback (Flag True)]
    \<and> p\<lparr>poll_ended_at := Some t\<rparr> \<in> set (Poll (fst (on_PollEnd s t pollId db)))
    \<and> (\<forall>q\<in>set (Poll (fst (on_PollEnd s t pollId db))). poll_id q = pollId \<longrightarrow> poll_ended_at q = Some t)
    \<and> (\<forall>steps sid name x.
          SockEmitLater ''PollStart'' x
            \<in> set (fst (connection (run (fst (on_PollEnd s t pollId db)) steps) sid name))
          \<longrightarrow> x \<noteq> PollRef pollId)"
proof -
  let ?db = "fst (on_PollEnd s t pollId db)"
  have 1: "snd (on_PollEnd s t pollId db) =
           [NspEmit (viewer_nsp (roomName s)) ''PollEnd'' NoPayload, Callback (Flag True)]"
    by (simp add: on_PollEnd_def)
  have 2: "p\<lparr>poll_ended_at := Some t\<rparr> \<in> set (Poll ?db)"
    using assms(2,3) by (rule PollEnd_member)
  have 3: "\<forall>q\<in>set (Poll ?db). poll_id q = pollId \<longrightarrow> poll_ended_at q = Some t"
    by (rule PollEnd_ended)
  have e: "\<forall>q\<in>set (Poll ?db). poll_id q = pollId \<longrightarrow> poll_ended_at q \<noteq> None"
  proof (intro ballI impI)
    fix q assume "q \<in> set (Poll ?db)" "poll_id q = pollId"
    with 3 have "poll_ended_at q = Some t" by blast
    then show "poll_ended_at q \<noteq> None" by simp
  qed
  have f: "pollId < Poll_seq ?db"
    using assms by (rule PollEnd_fresh)
  have 4: "x \<noteq> PollRef pollId"
    if "SockEmitLater ''PollStart'' x \<in> set (fst (connection (run ?db steps) sid name))"
    for steps sid name x
  proof -
    from connection_PollStart[OF that] obtain q where
      q: "q \<in> set (Poll (run ?db steps))" "poll_ended_at q = None" "x = PollRef (poll_id q)" by blast
    from ended_run[OF e f, of steps] q(1,2) have "poll_id q \<noteq> pollId" by auto
    with q(3) show ?thesis by simp
  qed
  show ?thesis
  proof (intro conjI)
    show "snd (on_PollEnd s t pollId db) =
           [NspEmit (viewer_nsp (roomName s)) ''PollEnd'' NoPayload, Callback (Flag True)]"
      by (rule 1)
    show "p\<lparr>poll_ended_at := Some t\<rparr> \<in> set (Poll ?db)" by (rule 2)
    show "\<forall>q\<in>set (Poll ?db). poll_id q = pollId \<longrightarrow> poll_ended_at q = Some t" by (rule 3)
    show "\<forall>steps sid name x.
          SockEmitLater ''PollStart'' x \<in> set (fst (connection (run ?db steps) sid name))
          \<longrightarrow> x \<noteq> PollRef pollId"
      using 4 by blast
  qed
qed

text \<open>
  C7: the replay is the work of the listener of the parent namespace. \<^verbatim>\<open>PollLaunch\<close>
  emits through \<^verbatim>\<open>io.of(`/rooms/${roomName}`)\<close>; when no viewer has connected, this call
  makes the namespace of that name, a plain one. In the room \<open>abc\<close> an administrator
  connects and launches a poll. The poll is the room's most recently created one and
  has no end timestamp, and the listener would send the viewer who connects next a
  \<^verbatim>\<open>PollStart\<close> with its identity. On the namespaces as they are after the launch that
  viewer is connected with no session and is sent nothing: the open poll is not
  replayed.
\<close>

theorem viewer_after_PollLaunch_no_replay:
  "connect room_abc [] 1 ''/rooms/abc/admin''
     = ([(''/rooms/abc/admin'', Child)],
        Joined [SockEmitLater ''QuestionNew'' (Questions [])] (Some admin1))
   \<and> handle admin1 env0 PollLaunch room_abc
     = (room_abc_poll, [NspEmit ''/rooms/abc'' ''PollStart'' (PollRef 1), Callback (PollRef 1)])
   \<and> namespaces_after (snd (handle admin1 env0 PollLaunch room_abc)) [(''/rooms/abc/admin'', Child)]
     = [(''/rooms/abc/admin'', Child), (''/rooms/abc'', Plain)]
   \<and> map (\<lambda>p. (poll_id p, poll_roomId p, poll_ended_at p)) (Poll room_abc_poll) = [(1, 7, None)]
   \<and> poll_replay room_abc_poll 7 = [SockEmitLater ''PollStart'' (PollRef 1)]
   \<and> SockEmitLater ''PollStart'' (PollRef 1) \<in> set (fst (connection room_abc_poll 3 ''/rooms/abc''))
   \<and> rooms_authorizer room_abc_poll ''/rooms/abc'' = Next None True
   \<and> connect room_abc_poll [(''/rooms/abc/admin'', Child), (''/rooms/abc'', Plain)] 3 ''/rooms/abc''
     = ([(''/rooms/abc/admin'', Child), (''/rooms/abc'', Plain)], Joined [] None)"
proof (intro conjI)
  show "connect room_abc [] 1 ''/rooms/abc/admin''
     = ([(''/rooms/abc/admin'', Child)],
        Joined [SockEmitLater ''QuestionNew'' (Questions [])] (Some admin1))"
    by (simp add: connect_def rooms_authorizer_def connection_def exec_abc_admin room_abc_def
        poll_replay_def question_replay_def orderBy_created_at_desc_def js_truthy_def admin1_def)
  have h: "handle admin1 env0 PollLaunch room_abc
     = (room_abc_poll, [NspEmit ''/rooms/abc'' ''PollStart'' (PollRef 1), Callback (PollRef 1)])"
    unfolding room_abc_poll_eq
    by (simp add: handle_def admin1_def admin_events_def on_PollLaunch_def Let_def room_abc_def
        env0_def zero_tally_def choice_labels_def viewer_nsp_def)
  show "handle admin1 env0 PollLaunch room_abc
     = (room_abc_poll, [NspEmit ''/rooms/abc'' ''PollStart'' (PollRef 1), Callback (PollRef 1)])"
    by (rule h)
  show "namespaces_after (snd (handle admin1 env0 PollLaunch room_abc)) [(''/rooms/abc/admin'', Child)]
     = [(''/rooms/abc/admin'', Child), (''/rooms/abc'', Plain)]"
    unfolding h by (simp add: io_of_def)
  show "map (\<lambda>p. (poll_id p, poll_roomId p, poll_ended_at p)) (Poll room_abc_poll) = [(1, 7, None)]"
    by (simp add: room_abc_poll_eq)
  have r: "poll_replay room_abc_poll 7 = [SockEmitLater ''PollStart'' (PollRef 1)]"
    by (simp add: poll_replay_def orderBy_created_at_desc_def room_abc_poll_eq)
  show "poll_replay room_abc_poll 7 = [SockEmitLater ''PollStart'' (PollRef 1)]" by (rule r)
  have "fst (connection room_abc_poll 3 ''/rooms/abc'')
          = poll_replay room_abc_poll 7 @ question_replay room_abc_poll 7 None"
    by (simp add: connection_def exec_abc room_abc_poll_eq)
  then show "SockEmitLater ''PollStart'' (PollRef 1) \<in> set (fst (connection room_abc_poll 3 ''/rooms/abc''))"
    unfolding r by simp
  show "rooms_authorizer room_abc_poll ''/rooms/abc'' = Next None True"
    by (simp add: rooms_authorizer_def exec_abc room_abc_poll_eq)
  show "connect room_abc_poll [(''/rooms/abc/admin'', Child), (''/rooms/abc'', Plain)] 3 ''/rooms/abc''
     = ([(''/rooms/abc/admin'', Child), (''/rooms/abc'', Plain)], Joined [] None)"
    by (simp add: connect_def)
qed

section \<open>The question board\<close>

lemma admin_session_nsp:
  assumes "connection db sid name = (effs, Some s)" and "bound_role s = Administrator"
  shows "nsp s \<noteq> viewer_nsp (roomName s)" and "handlers s = admin_events @ shared_events"
proof -
  from connection_SomeD[OF assms(1)] have ex: "roomRegEx_exec name = Some (roomName s, admin s)"
    and n: "nsp s = name"
    and h: "handlers s = (if js_truthy (admin s) then admin_events else viewer_events) @ shared_events"
    by auto
  from assms(2) have t: "js_truthy (admin s)" by (simp add: bound_role_def split: if_splits)
  then obtain r where r: "admin s = Some r" by (auto simp: js_truthy_def split: option.splits)
  from exec_sound[OF ex] r obtain pre trail where
    nm: "name = pre @ roomName s @ (CHR ''/'' # r) @ trail" and p: "rooms_prefix pre"
    unfolding room_path_def by auto
  have "length name = 7 + length (roomName s) + 1 + length r + length trail"
    using nm length_prefix[OF p] by simp
  moreover have "length (viewer_nsp (roomName s)) = 7 + length (roomName s)"
    by (simp add: viewer_nsp_def)
  ultimately have "name \<noteq> viewer_nsp (roomName s)" by auto
  with n show "nsp s \<noteq> viewer_nsp (roomName s)" by simp
  from h t show "handlers s = admin_events @ shared_events" by simp
qed

text \<open>
  C8 (amended): \<^verbatim>\<open>QuestionClear\<close> from an administrator's session deletes the questions
  of the session's room and leaves the others. The signal is emitted to the viewers'
  namespace of the room and to the administrator's own socket: a connection receives
  it once when it is in the viewers' namespace or is the initiating connection, and
  not at all otherwise.
\<close>

theorem QuestionClear_delivery:
  assumes "connection db0 sid name = (effs0, Some s)" and "bound_role s = Administrator"
    and "c_sock c = sock s \<longrightarrow> c_nsp c = nsp s"
  shows "fst (handle s e QuestionClear db)
           = db\<lparr>Question := filter (\<lambda>q. q_roomId q \<noteq> roomId s) (Question db)\<rparr>
    \<and> received s (snd (handle s e QuestionClear db)) c
         = (if c_nsp c = viewer_nsp (roomName s) \<or> c_sock c = sock s
            then [(''QuestionClear'', NoPayload)] else [])"
proof -
  note a = admin_session_nsp[OF assms(1,2)]
  have h: "handle s e QuestionClear db = on_QuestionClear s db"
    by (simp add: handle_def a(2) admin_events_def)
  have x: "\<not> (c_nsp c = viewer_nsp (roomName s) \<and> c_sock c = sock s)"
    using a(1) assms(3) by auto
  show ?thesis unfolding h using x
    by (auto simp: on_QuestionClear_def received_def)
qed

lemma connection_admin1: "connection room_abc 1 ''/rooms/abc/admin'' =
      ([SockEmitLater ''QuestionNew'' (Questions [])], Some admin1)"
proof -
  show ?thesis
    by (simp add: connection_def exec_abc_admin room_abc_def admin1_def js_truthy_def poll_replay_def
        question_replay_def orderBy_created_at_desc_def)
qed

lemma connection_admin2: "connection room_abc 2 ''/rooms/abc/admin'' =
      ([SockEmitLater ''QuestionNew'' (Questions [])], Some admin2)"
proof -
  show ?thesis
    by (simp add: connection_def exec_abc_admin room_abc_def admin2_def js_truthy_def poll_replay_def
        question_replay_def orderBy_created_at_desc_def)
qed

theorem QuestionClear_delivery_witness:
  "received admin1 (snd (handle admin1 env0 QuestionClear room_abc_asked))
      \<lparr>c_sock = 3, c_nsp = ''/rooms/abc''\<rparr> = [(''QuestionClear'', NoPayload)]
   \<and> received admin1 (snd (handle admin1 env0 QuestionClear room_abc_asked))
      \<lparr>c_sock = 1, c_nsp = ''/rooms/abc/admin''\<rparr> = [(''QuestionClear'', NoPayload)]
   \<and> Question (fst (handle admin1 env0 QuestionClear room_abc_asked)) = []"
proof -
  have b: "bound_role admin1 = Administrator" by (simp add: bound_role_def admin1_def js_truthy_def)
  have c3: "c_sock \<lparr>c_sock = 3, c_nsp = ''/rooms/abc''\<rparr> = sock admin1
            \<longrightarrow> c_nsp \<lparr>c_sock = 3, c_nsp = ''/rooms/abc''\<rparr> = nsp admin1"
    by (simp add: admin1_def)
  have c1: "c_sock \<lparr>c_sock = 1, c_nsp = ''/rooms/abc/admin''\<rparr> = sock admin1
            \<longrightarrow> c_nsp \<lparr>c_sock = 1, c_nsp = ''/rooms/abc/admin''\<rparr> = nsp admin1"
    by (simp add: admin1_def)
  have q: "Question room_abc_asked = [\<lparr>q_id = 1, q_roomId = 7, q_content = ''why'', q_approved = False,
              q_votes = 0, q_created_at = 100\<rparr>]"
    by (simp add: room_abc_asked_eq)
  from QuestionClear_delivery[OF connection_admin1 b c3, of env0 room_abc_asked]
  have "received admin1 (snd (handle admin1 env0 QuestionClear room_abc_asked))
      \<lparr>c_sock = 3, c_nsp = ''/rooms/abc''\<rparr> = [(''QuestionClear'', NoPayload)]"
    and "Question (fst (handle admin1 env0 QuestionClear room_abc_asked)) = []"
    by (simp_all add: viewer_nsp_def admin1_def q)
  moreover from QuestionClear_delivery[OF connection_admin1 b c1, of env0 room_abc_asked]
  have "received admin1 (snd (handle admin1 env0 QuestionClear room_abc_asked))
      \<lparr>c_sock = 1, c_nsp = ''/rooms/abc/admin''\<rparr> = [(''QuestionClear'', NoPayload)]"
    by (simp add: viewer_nsp_def admin1_def)
  ultimately show ?thesis by simp
qed

text \<open>
  C8 as stated fails: with two administrators connected to the room, the one that
  did not send \<^verbatim>\<open>QuestionClear\<close> receives no signal.
\<close>

theorem QuestionClear_misses_other_admin:
  "snd (connection room_abc 1 ''/rooms/abc/admin'') = Some admin1
   \<and> snd (connection room_abc 2 ''/rooms/abc/admin'') = Some admin2
   \<and> received admin1 (snd (handle admin1 env0 QuestionClear room_abc))
        \<lparr>c_sock = sock admin2, c_nsp = nsp admin2\<rparr> = []"
proof -
  have "received admin1 (snd (handle admin1 env0 QuestionClear room_abc))
        \<lparr>c_sock = sock admin2, c_nsp = nsp admin2\<rparr> = []"
    by (simp add: handle_def admin1_def admin2_def admin_events_def on_QuestionClear_def received_def
        viewer_nsp_def)
  with connection_admin1 connection_admin2 show ?thesis by simp
qed


lemma handle_QuestionAsk:
  assumes "handlers s = admin_events @ shared_events \<or> handlers s = viewer_events @ shared_events"
  shows "handle s e (QuestionAsk d) db = on_QuestionAsk s (now e) (row_ok e) d True db"
  using assms by (auto simp: handle_def shared_events_def)

text \<open>A row that the store refuses leaves no question, no acknowledgement and no emit.\<close>

lemma QuestionAsk_refused:
  assumes "a_extra d \<noteq> [] \<or> \<not> ok (ask_row s t d db)"
  shows "on_QuestionAsk s t ok d cb db = (db, [Unhandled StoreError])"
  using assms by (auto simp: on_QuestionAsk_def Let_def)

lemma QuestionAsk_identity_taken:
  assumes "q_id (ask_row s t d db) \<in> q_id ` set (Question db)"
  shows "Question (fst (on_QuestionAsk s t ok d cb db)) = Question db
         \<and> snd (on_QuestionAsk s t ok d cb db) = [Unhandled StoreError]"
  using assms by (simp add: on_QuestionAsk_def Let_def)

text \<open>
  C9 (amended): \<^verbatim>\<open>QuestionAsk\<close>, from a session of either role, with a payload whose
  keys are columns of the table and a row that the store takes, of an identity the
  table has not, inserts this one question; it is not approved whatever the payload
  says, it belongs to the session's room when the payload has no \<^verbatim>\<open>roomId\<close> and has
  zero votes when the payload has no \<^verbatim>\<open>votes\<close>. The callback is called with \<^verbatim>\<open>true\<close>,
  then the question, without its room, is emitted to the administrators' namespace
  of the room and to no other.
\<close>

theorem QuestionAsk_inserts:
  assumes "handlers s = admin_events @ shared_events \<or> handlers s = viewer_events @ shared_events"
    and "a_extra d = []"
    and "row_ok e (ask_row s (now e) d db)"
    and "q_id (ask_row s (now e) d db) \<notin> q_id ` set (Question db)"
  shows "\<exists>q. Question (fst (handle s e (QuestionAsk d) db)) = Question db @ [q]
           \<and> q = ask_row s (now e) d db
           \<and> q_approved q = False \<and> q_content q = a_content d
           \<and> (a_roomId d = None \<longrightarrow> q_roomId q = roomId s)
           \<and> (a_votes d = None \<longrightarrow> q_votes q = 0)
           \<and> snd (handle s e (QuestionAsk d) db)
               = [Callback (Flag True),
                  NspEmit (admin_nsp (roomName s)) ''QuestionNew'' (Questions [strip_room q])]
           \<and> (\<forall>c. c_nsp c \<noteq> admin_nsp (roomName s)
                  \<longrightarrow> received s (snd (handle s e (QuestionAsk d) db)) c = [])"
proof -
  let ?q = "ask_row s (now e) d db"
  have o: "on_QuestionAsk s (now e) (row_ok e) d True db
      = (db\<lparr>Question := Question db @ [?q],
             Question_seq := (case a_id d of None \<Rightarrow> Suc (Question_seq db) | Some i \<Rightarrow> Question_seq db)\<rparr>,
         [Callback (Flag True),
          NspEmit (admin_nsp (roomName s)) ''QuestionNew'' (Questions [strip_room ?q])])"
    using assms(2,3,4) by (simp add: on_QuestionAsk_def Let_def)
  have r: "q_approved ?q = False" "q_content ?q = a_content d"
    "a_roomId d = None \<longrightarrow> q_roomId ?q = roomId s" "a_votes d = None \<longrightarrow> q_votes ?q = 0"
    by (simp_all add: ask_row_def)
  show ?thesis
    unfolding handle_QuestionAsk[OF assms(1)] o
    using r by (intro exI[of _ ?q]) (simp add: received_def)
qed

theorem QuestionAsk_inserts_witness:
  "Question (fst (handle viewer3 env0 (QuestionAsk ask_why) room_abc)) =
     [\<lparr>q_id = 1, q_roomId = 7, q_content = ''why'', q_approved = False, q_votes = 0, q_created_at = 100\<rparr>]
   \<and> snd (handle viewer3 env0 (QuestionAsk ask_why) room_abc) =
     [Callback (Flag True),
      NspEmit ''/rooms/abc/admin'' ''QuestionNew''
        (Questions [\<lparr>o_id = 1, o_content = ''why'', o_approved = False, o_votes = 0,
                      o_created_at = 100\<rparr>])]"
proof -
  have hs: "handlers viewer3 = admin_events @ shared_events \<or> handlers viewer3 = viewer_events @ shared_events"
    by (simp add: viewer3_def)
  have x: "a_extra ask_why = []" by (simp add: ask_why_def)
  have q: "ask_row viewer3 (now env0) ask_why room_abc
      = \<lparr>q_id = 1, q_roomId = 7, q_content = ''why'', q_approved = False, q_votes = 0,
          q_created_at = 100\<rparr>"
    by (simp add: ask_row_def ask_why_def viewer3_def env0_def room_abc_def)
  have k: "row_ok env0 (ask_row viewer3 (now env0) ask_why room_abc)"
    unfolding q by (simp add: env0_def int4_def)
  have f: "q_id (ask_row viewer3 (now env0) ask_why room_abc) \<notin> q_id ` set (Question room_abc)"
    by (simp add: room_abc_def)
  have n: "admin_nsp (roomName viewer3) = ''/rooms/abc/admin''"
    by (simp add: admin_nsp_def viewer3_def)
  from QuestionAsk_inserts[OF hs x k f] obtain q' where
    "Question (fst (handle viewer3 env0 (QuestionAsk ask_why) room_abc)) = Question room_abc @ [q']"
    "q' = ask_row viewer3 (now env0) ask_why room_abc"
    "snd (handle viewer3 env0 (QuestionAsk ask_why) room_abc)
       = [Callback (Flag True),
          NspEmit (admin_nsp (roomName viewer3)) ''QuestionNew'' (Questions [strip_room q'])]"
    by blast
  then show ?thesis
    unfolding q n by (simp add: room_abc_def strip_room_def)
qed

text \<open>
  C9 as stated fails: a payload that carries \<^verbatim>\<open>votes\<close> is stored with those votes, a
  payload that carries \<^verbatim>\<open>roomId\<close> is stored in that room, and a payload with a key
  that is no column inserts nothing, with no acknowledgement and no emit.
\<close>

theorem QuestionAsk_keeps_payload_votes:
  "map (\<lambda>q. (q_roomId q, q_votes q))
       (Question (fst (handle viewer3 env0 (QuestionAsk (ask_why\<lparr>a_votes := Some 5\<rparr>)) room_abc)))
     = [(7, 5)]
   \<and> map (\<lambda>q. (q_roomId q, q_votes q))
       (Question (fst (handle viewer3 env0 (QuestionAsk (ask_why\<lparr>a_roomId := Some 8\<rparr>)) room_abc)))
     = [(8, 0)]
   \<and> handle viewer3 env0 (QuestionAsk (ask_why\<lparr>a_extra := [''color'']\<rparr>)) room_abc
     = (room_abc, [Unhandled StoreError])"
  by (simp add: handle_def viewer3_def viewer_events_def shared_events_def
        on_QuestionAsk_def ask_row_def ask_why_def Let_def room_abc_def env0_def int4_def)




subsection \<open>What reaches the viewers\<close>

lemma viewer_replay_approved:
  assumes "connection db sid name = (effs, Some s)" and "bound_role s = Viewer"
    and "SockEmitLater ''QuestionNew'' (Questions qs) \<in> set effs" and "q \<in> set qs"
  shows "o_approved q = True"
proof -
  from connection_SomeD[OF assms(1)]
  have e: "effs = poll_replay db (roomId s) @ question_replay db (roomId s) (admin s)" by blast
  from assms(2) have nt: "\<not> js_truthy (admin s)" by (simp add: bound_role_def split: if_splits)
  have "SockEmitLater ''QuestionNew'' (Questions qs) \<notin> set (poll_replay db (roomId s))"
    using poll_replay_emits[of "SockEmitLater ''QuestionNew'' (Questions qs)" db "roomId s"] by auto
  with assms(3) e have "SockEmitLater ''QuestionNew'' (Questions qs) \<in> set (question_replay db (roomId s) (admin s))"
    by auto
  with nt have "qs = map strip_room (filter (\<lambda>q. q_roomId q = roomId s \<and> q_approved q = True) (Question db))"
    by (simp add: question_replay_def)
  with assms(4) show ?thesis by (auto simp: strip_room_def)
qed

lemma admin_replay_all:
  assumes "connection db sid name = (effs, Some s)" and "bound_role s = Administrator"
  shows "SockEmitLater ''QuestionNew'' (Questions (map strip_room (filter (\<lambda>q. q_roomId q = roomId s) (Question db))))
           \<in> set effs"
proof -
  from connection_SomeD[OF assms(1)]
  have e: "effs = poll_replay db (roomId s) @ question_replay db (roomId s) (admin s)" by blast
  from assms(2) have "js_truthy (admin s)" by (simp add: bound_role_def split: if_splits)
  with e show ?thesis by (simp add: question_replay_def)
qed

lemma approve_emits_approved:
  assumes "NspEmit ns ev (Questions qs) \<in> set (snd (on_QuestionApprove s questionId db))" and "q \<in> set qs"
  shows "o_approved q = True"
proof (cases "filter (\<lambda>q. q_id q = questionId) (Question db)")
  case Nil
  with assms show ?thesis by (simp add: on_QuestionApprove_def Let_def)
next
  case (Cons a list)
  with assms show ?thesis by (auto simp: on_QuestionApprove_def Let_def strip_room_def)
qed

text \<open>
  C6 fails at an upvote: a viewer asks a question, which is not approved, and an
  upvote of it, from any session, emits the record with \<^verbatim>\<open>approved\<close> false to the
  viewers' namespace, whose connections receive it. The replay of a viewer's
  connection and the emit of an approval carry approved questions only
  (\<open>viewer_replay_approved\<close>, \<open>approve_emits_approved\<close>), and the replay of an
  administrator's carries all the questions of the room (\<open>admin_replay_all\<close>).
\<close>

theorem upvote_emits_unapproved_to_viewers:
  "Question room_abc_asked =
     [\<lparr>q_id = 1, q_roomId = 7, q_content = ''why'', q_approved = False, q_votes = 0, q_created_at = 100\<rparr>]
   \<and> snd (handle viewer3 env0 (QuestionUpvote 1) room_abc_asked) =
       [NspEmit ''/rooms/abc'' ''QuestionNew''
          (Questions [\<lparr>o_id = 1, o_content = ''why'', o_approved = False, o_votes = 1, o_created_at = 100\<rparr>]),
        NspEmit ''/rooms/abc/admin'' ''QuestionNew''
          (Questions [\<lparr>o_id = 1, o_content = ''why'', o_approved = False, o_votes = 1, o_created_at = 100\<rparr>])]
   \<and> received viewer3 (snd (handle viewer3 env0 (QuestionUpvote 1) room_abc_asked))
        \<lparr>c_sock = 4, c_nsp = ''/rooms/abc''\<rparr> =
       [(''QuestionNew'',
         Questions [\<lparr>o_id = 1, o_content = ''why'', o_approved = False, o_votes = 1, o_created_at = 100\<rparr>])]"
proof -
  have h: "handle viewer3 env0 (QuestionUpvote 1) room_abc_asked = on_QuestionUpvote viewer3 1 room_abc_asked"
    by (simp add: handle_def viewer3_def viewer_events_def shared_events_def)
  have u: "snd (on_QuestionUpvote viewer3 1 room_abc_asked) =
       [NspEmit ''/rooms/abc'' ''QuestionNew''
          (Questions [\<lparr>o_id = 1, o_content = ''why'', o_approved = False, o_votes = 1, o_created_at = 100\<rparr>]),
        NspEmit ''/rooms/abc/admin'' ''QuestionNew''
          (Questions [\<lparr>o_id = 1, o_content = ''why'', o_approved = False, o_votes = 1, o_created_at = 100\<rparr>])]"
    by (simp add: on_QuestionUpvote_def Let_def room_abc_asked_eq strip_room_def viewer_nsp_def
        admin_nsp_def viewer3_def)
  show ?thesis unfolding h u by (simp add: room_abc_asked_eq received_def)
qed

end
